theory Spec2Isabelle
  imports Complex_Main
begin

section \<open>Numbers and landmarks\<close>

text \<open>
  JavaScript numbers are modelled by the real numbers (ideal arithmetic: no rounding
  error, no NaN, no infinities; a division whose divisor may be zero in the source is
  guarded in the model).  Where the rounding of the program's binary64 arithmetic can
  show in a computed score, the property is stated up to a tolerance (see the section
  on magnitudes and tolerances).  Clock readings (\<open>Date.now()\<close>) are integers of milliseconds.
  A field the source reads as \<open>lm.z || 0\<close> or \<open>lm.visibility || 0\<close> may be
  undefined; it is an \<open>option\<close>, and the reading functions below give 0 for \<open>None\<close>.
  The coordinate fields \<open>x\<close>, \<open>y\<close>, \<open>z\<close> of the source are named \<open>lm_x\<close>, \<open>lm_y\<close>,
  \<open>lm_z\<close>.
\<close>

definition js_round :: "real \<Rightarrow> int" where
  \<comment> \<open>\<open>Math.round\<close>: the nearest integer, halves towards plus infinity.\<close>
  "js_round v = \<lfloor>v + 1 / 2\<rfloor>"

record landmark =
  lm_x :: real
  lm_y :: real
  lm_z :: "real option"
  visibility :: "real option"

type_synonym pose = "landmark list"

definition z_or0 :: "landmark \<Rightarrow> real" where
  \<comment> \<open>\<open>lm.z || 0\<close>\<close>
  "z_or0 lm = (case lm_z lm of None \<Rightarrow> 0 | Some v \<Rightarrow> v)"

definition vis_or0 :: "landmark \<Rightarrow> real" where
  \<comment> \<open>\<open>lm.visibility || 0\<close>\<close>
  "vis_or0 lm = (case visibility lm of None \<Rightarrow> 0 | Some v \<Rightarrow> v)"

section \<open>Pose normalizer (poseNormalizer.js)\<close>

definition midpoint :: "landmark \<Rightarrow> landmark \<Rightarrow> landmark" where
  "midpoint a b =
     \<lparr> lm_x = (lm_x a + lm_x b) / 2,
       lm_y = (lm_y a + lm_y b) / 2,
       lm_z = Some ((z_or0 a + z_or0 b) / 2),
       visibility = Some (min (vis_or0 a) (vis_or0 b)) \<rparr>"

definition distance :: "landmark \<Rightarrow> landmark \<Rightarrow> real" where
  "distance a b =
     sqrt ((lm_x a - lm_x b)\<^sup>2 + (lm_y a - lm_y b)\<^sup>2 + (z_or0 a - z_or0 b)\<^sup>2)"

definition normalizePose :: "pose \<Rightarrow> pose option" where
  "normalizePose landmarks =
     (if length landmarks < 33 then None
      else
        let midHip = midpoint (landmarks ! 23) (landmarks ! 24);
            midShoulder = midpoint (landmarks ! 11) (landmarks ! 12);
            torsoLen = distance midShoulder midHip
        in if torsoLen < 0.001 then None
           else Some (map (\<lambda>lm.
                  \<lparr> lm_x = (lm_x lm - lm_x midHip) / torsoLen,
                    lm_y = (lm_y lm - lm_y midHip) / torsoLen,
                    lm_z = Some ((z_or0 lm - z_or0 midHip) / torsoLen),
                    visibility = Some (vis_or0 lm) \<rparr>) landmarks))"

text \<open>
  Two names for parts of \<open>normalizePose\<close>, used to state its properties: the torso
  length it computes, and the landmark it builds from each input landmark.
\<close>

definition torso_length :: "pose \<Rightarrow> real" where
  "torso_length P = distance (midpoint (P ! 11) (P ! 12)) (midpoint (P ! 23) (P ! 24))"

definition norm_lm :: "landmark \<Rightarrow> real \<Rightarrow> landmark \<Rightarrow> landmark" where
  "norm_lm midHip torsoLen lm =
     \<lparr> lm_x = (lm_x lm - lm_x midHip) / torsoLen,
       lm_y = (lm_y lm - lm_y midHip) / torsoLen,
       lm_z = Some ((z_or0 lm - z_or0 midHip) / torsoLen),
       visibility = Some (vis_or0 lm) \<rparr>"

definition SWAP_PAIRS :: "(nat \<times> nat) list" where
  "SWAP_PAIRS =
     [(11, 12), (13, 14), (15, 16), (17, 18), (19, 20), (21, 22),
      (23, 24), (25, 26), (27, 28), (29, 30), (31, 32),
      (1, 4), (2, 5), (3, 6), (7, 8), (9, 10)]"

definition swap_step :: "pose \<Rightarrow> nat \<times> nat \<Rightarrow> pose" where
  \<comment> \<open>One round of the loop over the table: \<open>temp = m[l]; m[l] = m[r]; m[r] = temp\<close>.\<close>
  "swap_step mirrored p =
     (case p of (l, r) \<Rightarrow>
        let temp = mirrored ! l;
            mirrored1 = mirrored[l := mirrored ! r]
        in mirrored1[r := temp])"

definition mirrorPose :: "pose \<Rightarrow> pose" where
  \<comment> \<open>The model covers arrays in which every index of the table exists (33 entries or
      more).  On a shorter array the source pads the array with empty objects, which
      the type \<open>pose\<close> cannot hold; nothing is stated about such arrays.\<close>
  "mirrorPose landmarks =
     foldl swap_step
       (map (\<lambda>lm. \<lparr> lm_x = - lm_x lm, lm_y = lm_y lm, lm_z = lm_z lm,
                     visibility = visibility lm \<rparr>) landmarks)
       SWAP_PAIRS"

text \<open>
  The index permutation the table performs: entry \<open>i\<close> of the mirrored pose comes
  from entry \<open>swapped_index i\<close> of the input.
\<close>

fun swaps_index :: "(nat \<times> nat) list \<Rightarrow> nat \<Rightarrow> nat" where
  "swaps_index [] i = i"
| "swaps_index ((l, r) # ps) i =
     (let j = swaps_index ps i in if j = l then r else if j = r then l else j)"

definition swapped_index :: "nat \<Rightarrow> nat" where
  "swapped_index i = swaps_index SWAP_PAIRS i"

definition pair_entries :: "(nat \<times> nat) list \<Rightarrow> nat list" where
  \<comment> \<open>Every index the table names, in order.\<close>
  "pair_entries ps = concat (map (\<lambda>p. [fst p, snd p]) ps)"

section \<open>Example poses\<close>

text \<open>
  A standing figure with arms stretched sideways, already in the normalized frame (hip
  midpoint at the origin, torso length 1), and the same figure as a camera might
  report it (scaled by 2, shifted, with the depth of some landmarks missing).
\<close>

definition pt :: "real \<Rightarrow> real \<Rightarrow> real \<Rightarrow> landmark" where
  "pt a b v = \<lparr> lm_x = a, lm_y = b, lm_z = Some 0, visibility = Some v \<rparr>"

definition standingPose :: pose where
  "standingPose =
     [pt 0 1 0.9,
      pt 0 1 0.9, pt 0 1 0.9, pt 0 1 0.9, pt 0 1 0.8, pt 0 1 0.8, pt 0 1 0.8,
      pt 0 1 0.9, pt 0 1 0.8, pt 0 1 0.9, pt 0 1 0.8,
      pt 1 1 0.9, pt (-1) 1 0.8,
      pt 2 1 0.9, pt (-2) 1 0.8,
      pt 3 1 0.9, pt (-3) 1 0.8,
      pt 3 1 0.9, pt (-3) 1 0.8, pt 3 1 0.9, pt (-3) 1 0.8, pt 3 1 0.9, pt (-3) 1 0.8,
      pt 1 0 0.9, pt (-1) 0 0.8,
      pt 1 (-1) 0.9, pt (-1) (-1) 0.8,
      pt 1 (-2) 0.9, pt (-1) (-2) 0.8,
      pt 1 (-2) 0.9, pt (-1) (-2) 0.8, pt 1 (-2) 0.9, pt (-1) (-2) 0.8]"

definition raw_pt :: "real \<Rightarrow> real \<Rightarrow> real \<Rightarrow> landmark" where
  "raw_pt a b v = \<lparr> lm_x = 2 * a + 3, lm_y = 2 * b + 5, lm_z = None, visibility = Some v \<rparr>"

definition cameraPose :: pose where
  "cameraPose =
     [raw_pt 0 1 0.9,
      raw_pt 0 1 0.9, raw_pt 0 1 0.9, raw_pt 0 1 0.9, raw_pt 0 1 0.8, raw_pt 0 1 0.8,
      raw_pt 0 1 0.8, raw_pt 0 1 0.9, raw_pt 0 1 0.8, raw_pt 0 1 0.9, raw_pt 0 1 0.8,
      raw_pt 1 1 0.9, raw_pt (-1) 1 0.8,
      raw_pt 2 1 0.9, raw_pt (-2) 1 0.8,
      raw_pt 3 1 0.9, raw_pt (-3) 1 0.8,
      raw_pt 3 1 0.9, raw_pt (-3) 1 0.8, raw_pt 3 1 0.9, raw_pt (-3) 1 0.8,
      raw_pt 3 1 0.9, raw_pt (-3) 1 0.8,
      raw_pt 1 0 0.9, raw_pt (-1) 0 0.8,
      raw_pt 1 (-1) 0.9, raw_pt (-1) (-1) 0.8,
      raw_pt 1 (-2) 0.9, raw_pt (-1) (-2) 0.8,
      raw_pt 1 (-2) 0.9, raw_pt (-1) (-2) 0.8, raw_pt 1 (-2) 0.9, raw_pt (-1) (-2) 0.8]"

section \<open>Similarity scorer (poseSimilarity.js)\<close>

datatype segment = leftArm | rightArm | leftLeg | rightLeg | torso | head

record seg_info =
  pairs :: "(nat \<times> nat) list"
  label :: string
  weight :: real

fun BODY_SEGMENTS :: "segment \<Rightarrow> seg_info" where
  "BODY_SEGMENTS leftArm = \<lparr> pairs = [(11, 13), (13, 15)], label = ''Left Arm'', weight = 1.5 \<rparr>"
| "BODY_SEGMENTS rightArm = \<lparr> pairs = [(12, 14), (14, 16)], label = ''Right Arm'', weight = 1.5 \<rparr>"
| "BODY_SEGMENTS leftLeg = \<lparr> pairs = [(23, 25), (25, 27)], label = ''Left Leg'', weight = 1.5 \<rparr>"
| "BODY_SEGMENTS rightLeg = \<lparr> pairs = [(24, 26), (26, 28)], label = ''Right Leg'', weight = 1.5 \<rparr>"
| "BODY_SEGMENTS torso =
     \<lparr> pairs = [(11, 12), (11, 23), (12, 24), (23, 24)], label = ''Torso'', weight = 1.0 \<rparr>"
| "BODY_SEGMENTS head = \<lparr> pairs = [(0, 11), (0, 12)], label = ''Head'', weight = 0.5 \<rparr>"

definition segment_keys :: "segment list" where
  \<comment> \<open>The keys of \<open>BODY_SEGMENTS\<close> in the order \<open>Object.entries\<close> lists them.\<close>
  "segment_keys = [leftArm, rightArm, leftLeg, rightLeg, torso, head]"

record vec3 =
  vx :: real
  vy :: real
  vz :: real

definition vecBetween :: "landmark \<Rightarrow> landmark \<Rightarrow> vec3" where
  \<comment> \<open>Called on normalized landmarks only, whose \<open>z\<close> is always a number.\<close>
  "vecBetween a b = \<lparr> vx = lm_x b - lm_x a, vy = lm_y b - lm_y a, vz = z_or0 b - z_or0 a \<rparr>"

definition magnitude :: "vec3 \<Rightarrow> real" where
  "magnitude v = sqrt ((vx v)\<^sup>2 + (vy v)\<^sup>2 + (vz v)\<^sup>2)"

definition cosineSim :: "vec3 \<Rightarrow> vec3 \<Rightarrow> real" where
  "cosineSim v1 v2 =
     (let dot = vx v1 * vx v2 + vy v1 * vy v2 + vz v1 * vz v2;
          mag1 = sqrt ((vx v1)\<^sup>2 + (vy v1)\<^sup>2 + (vz v1)\<^sup>2);
          mag2 = sqrt ((vx v2)\<^sup>2 + (vy v2)\<^sup>2 + (vz v2)\<^sup>2)
      in if mag1 < 0.0001 \<or> mag2 < 0.0001 then 0 else dot / (mag1 * mag2))"

fun pairs_loop :: "pose \<Rightarrow> pose \<Rightarrow> (nat \<times> nat) list \<Rightarrow> real \<times> nat \<Rightarrow> real \<times> nat" where
  \<comment> \<open>The inner loop of \<open>comparePoses\<close>; the accumulator is \<open>(totalSim, validPairs)\<close>.
      The visibility of a normalized landmark is always a number.\<close>
  "pairs_loop refNorm userNorm [] acc = acc"
| "pairs_loop refNorm userNorm ((a, b) # ps) (totalSim, validPairs) =
     (let minVis = min (min (vis_or0 (refNorm ! a)) (vis_or0 (refNorm ! b)))
                       (min (vis_or0 (userNorm ! a)) (vis_or0 (userNorm ! b)))
      in if minVis < 0.4 then pairs_loop refNorm userNorm ps (totalSim, validPairs)
         else
           let refVec = vecBetween (refNorm ! a) (refNorm ! b);
               userVec = vecBetween (userNorm ! a) (userNorm ! b)
           in pairs_loop refNorm userNorm ps
                (totalSim + cosineSim refVec userVec, validPairs + 1))"

definition segment_score :: "pose \<Rightarrow> pose \<Rightarrow> seg_info \<Rightarrow> real option" where
  "segment_score refNorm userNorm seg =
     (case pairs_loop refNorm userNorm (pairs seg) (0, 0) of
        (totalSim, validPairs) \<Rightarrow>
          if validPairs = 0 then None
          else Some (max 0 (min 100 (((totalSim / real validPairs + 1) / 2) * 100))))"

record comparison =
  overall :: real
  segments :: "(segment \<times> real option) list"
  timestamp :: int

fun weight_loop :: "(segment \<times> real option) list \<Rightarrow> real \<times> real \<Rightarrow> real \<times> real" where
  \<comment> \<open>The second loop of \<open>comparePoses\<close>; the accumulator is
      \<open>(weightedSum, weightTotal)\<close>.\<close>
  "weight_loop [] acc = acc"
| "weight_loop ((name, score) # rest) (weightedSum, weightTotal) =
     (case score of
        None \<Rightarrow> weight_loop rest (weightedSum, weightTotal)
      | Some s \<Rightarrow>
          let w = weight (BODY_SEGMENTS name)
          in weight_loop rest (weightedSum + s * w, weightTotal + w))"

definition comparePoses :: "int \<Rightarrow> pose \<Rightarrow> pose \<Rightarrow> comparison option" where
  \<comment> \<open>The first argument is the reading of \<open>Date.now()\<close>.\<close>
  "comparePoses now refLandmarks userLandmarks =
     (case normalizePose refLandmarks of
        None \<Rightarrow> None
      | Some refNorm \<Rightarrow>
          (case normalizePose userLandmarks of
             None \<Rightarrow> None
           | Some userNorm \<Rightarrow>
               let segmentScores =
                     map (\<lambda>name. (name, segment_score refNorm userNorm (BODY_SEGMENTS name)))
                       segment_keys
               in (case weight_loop segmentScores (0, 0) of
                     (weightedSum, weightTotal) \<Rightarrow>
                       Some \<lparr> overall =
                                (if weightTotal > 0
                                 then real_of_int (js_round ((weightedSum / weightTotal) * 10)) / 10
                                 else 0),
                              segments = segmentScores,
                              timestamp = now \<rparr>)))"

definition all_bones :: "(nat \<times> nat) list" where
  \<comment> \<open>Every landmark pair of every body segment.\<close>
  "all_bones = concat (map (\<lambda>name. pairs (BODY_SEGMENTS name)) segment_keys)"

definition bone_length :: "pose \<Rightarrow> nat \<times> nat \<Rightarrow> real" where
  "bone_length N p = magnitude (vecBetween (N ! fst p) (N ! snd p))"

text \<open>
  The standing figure with the left elbow at the left shoulder: the upper left arm has
  length 0.
\<close>

definition bentPose :: pose where
  "bentPose =
     [pt 0 1 0.9,
      pt 0 1 0.9, pt 0 1 0.9, pt 0 1 0.9, pt 0 1 0.8, pt 0 1 0.8, pt 0 1 0.8,
      pt 0 1 0.9, pt 0 1 0.8, pt 0 1 0.9, pt 0 1 0.8,
      pt 1 1 0.9, pt (-1) 1 0.8,
      pt 1 1 0.9, pt (-2) 1 0.8,
      pt 2 1 0.9, pt (-3) 1 0.8,
      pt 3 1 0.9, pt (-3) 1 0.8, pt 3 1 0.9, pt (-3) 1 0.8, pt 3 1 0.9, pt (-3) 1 0.8,
      pt 1 0 0.9, pt (-1) 0 0.8,
      pt 1 (-1) 0.9, pt (-1) (-1) 0.8,
      pt 1 (-2) 0.9, pt (-1) (-2) 0.8,
      pt 1 (-2) 0.9, pt (-1) (-2) 0.8, pt 1 (-2) 0.9, pt (-1) (-2) 0.8]"

text \<open>The standing figure with no visibility value on any landmark.\<close>

definition hiddenPose :: pose where
  "hiddenPose = map (\<lambda>lm. lm\<lparr> visibility := None \<rparr>) standingPose"

section \<open>Similarity transformations of a pose\<close>

text \<open>
  Not a function of the program: the uniform scaling by \<open>s\<close> and translation by
  \<open>(tx, ty, tz)\<close> of every landmark, under which the comparison is stated to be
  invariant.  The depth of a landmark is taken as the program reads it (a missing
  \<open>z\<close> is 0); visibility is left unchanged.
\<close>

definition transform_lm :: "real \<Rightarrow> real \<Rightarrow> real \<Rightarrow> real \<Rightarrow> landmark \<Rightarrow> landmark" where
  "transform_lm s tx ty tz lm =
     \<lparr> lm_x = s * lm_x lm + tx, lm_y = s * lm_y lm + ty,
       lm_z = Some (s * z_or0 lm + tz), visibility = visibility lm \<rparr>"

definition transform_pose :: "real \<Rightarrow> real \<Rightarrow> real \<Rightarrow> real \<Rightarrow> pose \<Rightarrow> pose" where
  "transform_pose s tx ty tz P = map (transform_lm s tx ty tz) P"

section \<open>Magnitudes and tolerances\<close>

text \<open>
  Not functions of the program.  The program computes in binary64 arithmetic, the
  model in exact arithmetic, and the two can differ by rounding.  A property of the
  scores is therefore stated up to a tolerance, and for inputs that stay clear of the
  thresholds the program compares computed lengths with:

  \<^item> \<open>ordinary_pose\<close>: the torso length lies between 0.0011 (clear of the guard at
    0.001 of \<open>normalizePose\<close>) and \<open>10\<^sup>6\<close>, and every coordinate is at most 1000 torso
    lengths in absolute value;
  \<^item> \<open>clear_bones\<close>: every bone of the six body segments has a normalized length
    of at most 0.00009 or of at least 0.00011 (clear of the guard at 0.0001 of
    \<open>cosineSim\<close>);
  \<^item> \<open>moderate_shift\<close>: the scaled torso length is at most \<open>10\<^sup>6\<close> and the
    translation is at most 1000 scaled torso lengths in each direction;
  \<^item> \<open>scores_close tol xs ys\<close>: two tables of segment scores have the same segments
    in the same order, a score in one exactly where the other has one, and scores
    that differ by at most \<open>tol\<close>.
\<close>

definition ordinary_pose :: "pose \<Rightarrow> bool" where
  "ordinary_pose P \<longleftrightarrow>
     0.0011 \<le> torso_length P \<and> torso_length P \<le> 10 ^ 6 \<and>
     list_all (\<lambda>lm. \<bar>lm_x lm\<bar> \<le> 1000 * torso_length P \<and>
                    \<bar>lm_y lm\<bar> \<le> 1000 * torso_length P \<and>
                    \<bar>z_or0 lm\<bar> \<le> 1000 * torso_length P) P"

definition clear_bones :: "pose \<Rightarrow> bool" where
  "clear_bones P \<longleftrightarrow>
     (case normalizePose P of
        None \<Rightarrow> False
      | Some N \<Rightarrow> list_all (\<lambda>p. bone_length N p \<le> 0.00009 \<or> 0.00011 \<le> bone_length N p)
                    all_bones)"

definition moderate_shift :: "real \<Rightarrow> real \<Rightarrow> real \<Rightarrow> real \<Rightarrow> pose \<Rightarrow> bool" where
  "moderate_shift s tx ty tz P \<longleftrightarrow>
     s * torso_length P \<le> 10 ^ 6 \<and>
     \<bar>tx\<bar> \<le> 1000 * (s * torso_length P) \<and>
     \<bar>ty\<bar> \<le> 1000 * (s * torso_length P) \<and>
     \<bar>tz\<bar> \<le> 1000 * (s * torso_length P)"

definition scores_close ::
  "real \<Rightarrow> (segment \<times> real option) list \<Rightarrow> (segment \<times> real option) list \<Rightarrow> bool" where
  "scores_close tol xs ys \<longleftrightarrow>
     list_all2 (\<lambda>a b. fst a = fst b \<and>
                  (case snd a of
                     None \<Rightarrow> snd b = None
                   | Some u \<Rightarrow> (case snd b of None \<Rightarrow> False | Some v \<Rightarrow> \<bar>u - v\<bar> \<le> tol)))
       xs ys"

section \<open>Audio coach (audioCoach.js)\<close>

definition COOLDOWN_MS :: int where
  "COOLDOWN_MS = 4000"

definition SCORE_THRESHOLD_SPEAK :: real where
  "SCORE_THRESHOLD_SPEAK = 55"

definition SCORE_THRESHOLD_PRAISE :: real where
  "SCORE_THRESHOLD_PRAISE = 85"

text \<open>
  The module variables \<open>lastSpeakTime\<close>, \<open>lastSpokenSegment\<close> and \<open>enabled\<close> are the
  state, passed in and returned.
\<close>

record coach_state =
  lastSpeakTime :: int
  lastSpokenSegment :: "segment option"
  enabled :: bool

record joints =
  primary :: "nat \<times> nat"
  joint_label :: string

fun SEGMENT_TO_JOINTS :: "segment \<Rightarrow> joints" where
  "SEGMENT_TO_JOINTS leftArm = \<lparr> primary = (15, 13), joint_label = ''left arm'' \<rparr>"
| "SEGMENT_TO_JOINTS rightArm = \<lparr> primary = (16, 14), joint_label = ''right arm'' \<rparr>"
| "SEGMENT_TO_JOINTS leftLeg = \<lparr> primary = (27, 25), joint_label = ''left leg'' \<rparr>"
| "SEGMENT_TO_JOINTS rightLeg = \<lparr> primary = (28, 26), joint_label = ''right leg'' \<rparr>"
| "SEGMENT_TO_JOINTS torso = \<lparr> primary = (11, 23), joint_label = ''torso'' \<rparr>"
| "SEGMENT_TO_JOINTS head = \<lparr> primary = (0, 11), joint_label = ''head'' \<rparr>"

definition nth_opt :: "'a list \<Rightarrow> nat \<Rightarrow> 'a option" where
  \<comment> \<open>Reading an array: \<open>undefined\<close> beyond its end.\<close>
  "nth_opt xs i = (if i < length xs then Some (xs ! i) else None)"

definition analyzeDifference :: "pose \<Rightarrow> pose \<Rightarrow> segment \<Rightarrow> string option" where
  \<comment> \<open>Every key of type \<open>segment\<close> has an entry in \<open>SEGMENT_TO_JOINTS\<close>, so the
      first early return of the source is never taken.\<close>
  "analyzeDifference refLandmarks userLandmarks segmentKey =
     (let seg = SEGMENT_TO_JOINTS segmentKey;
          tipIdx = fst (primary seg);
          baseIdx = snd (primary seg)
      in case nth_opt refLandmarks tipIdx of None \<Rightarrow> None | Some ref \<Rightarrow>
         (case nth_opt userLandmarks tipIdx of None \<Rightarrow> None | Some user \<Rightarrow>
         (case nth_opt refLandmarks baseIdx of None \<Rightarrow> None | Some refBase \<Rightarrow>
         (case nth_opt userLandmarks baseIdx of None \<Rightarrow> None | Some userBase \<Rightarrow>
            if vis_or0 ref < 0.4 \<or> vis_or0 user < 0.4 then None
            else
              let refRelY = lm_y ref - lm_y refBase;
                  userRelY = lm_y user - lm_y userBase;
                  refRelX = lm_x ref - lm_x refBase;
                  userRelX = lm_x user - lm_x userBase;
                  yDiff = userRelY - refRelY;
                  xDiff = userRelX - refRelX;
                  lbl = joint_label seg;
                  absY = \<bar>yDiff\<bar>;
                  absX = \<bar>xDiff\<bar>
              in if absY > absX \<and> absY > 0.04
                 then Some (if yDiff > 0 then ''Raise your '' @ lbl @ '' higher''
                            else ''Lower your '' @ lbl @ '' a bit'')
                 else if absX > 0.04
                 then Some (if xDiff > 0 then ''Bring your '' @ lbl @ '' more to the left''
                            else ''Extend your '' @ lbl @ '' more to the right'')
                 else Some (''Adjust your '' @ lbl @ '' position'')))))"

fun worst_loop ::
  "(segment \<times> real option) list \<Rightarrow> segment option \<times> real \<Rightarrow> segment option \<times> real" where
  \<comment> \<open>The search for the lowest score; the accumulator is \<open>(worstSeg, worstScore)\<close>.\<close>
  "worst_loop [] acc = acc"
| "worst_loop ((key, score) # rest) (worstSeg, worstScore) =
     (case score of
        None \<Rightarrow> worst_loop rest (worstSeg, worstScore)
      | Some s \<Rightarrow>
          if s < worstScore then worst_loop rest (Some key, s)
          else worst_loop rest (worstSeg, worstScore))"

definition truthy :: "string option \<Rightarrow> bool" where
  \<comment> \<open>A string value is falsy when it is missing or empty.\<close>
  "truthy m = (case m of None \<Rightarrow> False | Some t \<Rightarrow> t \<noteq> [])"

definition generateVoiceCue ::
  "coach_state \<Rightarrow> int \<Rightarrow> comparison option \<Rightarrow> pose option \<Rightarrow> pose option \<Rightarrow> string option
     \<Rightarrow> coach_state \<times> string option" where
  \<comment> \<open>The second argument is the reading of \<open>Date.now()\<close>.  The result is the new
      state and the text handed to \<open>speak\<close>, if any.\<close>
  "generateVoiceCue st now comparison refLandmarks userLandmarks posecodeVoiceCue =
     (case comparison of
        None \<Rightarrow> (st, None)
      | Some cmp \<Rightarrow>
          if \<not> enabled st then (st, None)
          else if now - lastSpeakTime st < COOLDOWN_MS then (st, None)
          else
            (case worst_loop (segments cmp) (None, 100) of
               (worstSeg, worstScore) \<Rightarrow>
                 if worstScore \<ge> SCORE_THRESHOLD_SPEAK then
                   (if overall cmp \<ge> SCORE_THRESHOLD_PRAISE \<and> now - lastSpeakTime st > 8000
                    then (st\<lparr> lastSpeakTime := now \<rparr>, Some ''Great form! You're nailing it!'')
                    else (st, None))
                 else if worstSeg = lastSpokenSegment st
                         \<and> now - lastSpeakTime st < COOLDOWN_MS * 2 then (st, None)
                 else
                   let message0 = (if truthy posecodeVoiceCue then posecodeVoiceCue else None);
                       message1 =
                         (if \<not> truthy message0 then
                            (case (refLandmarks, userLandmarks, worstSeg) of
                               (Some r, Some u, Some k) \<Rightarrow> analyzeDifference r u k
                             | _ \<Rightarrow> message0)
                          else message0);
                       message2 =
                         (if \<not> truthy message1 then
                            Some (''Watch your '' @
                                  (case worstSeg of
                                     Some k \<Rightarrow> joint_label (SEGMENT_TO_JOINTS k)
                                   | None \<Rightarrow> ''null''))
                          else message1)
                   in (st\<lparr> lastSpeakTime := now, lastSpokenSegment := worstSeg \<rparr>, message2)))"

text \<open>
  A sequence of calls, each with the clock reading at the call, and the utterances it
  produces, each with the time at which it was spoken.
\<close>

record voice_call =
  call_now :: int
  call_comparison :: "comparison option"
  call_ref :: "pose option"
  call_user :: "pose option"
  call_cue :: "string option"

fun run_coach :: "coach_state \<Rightarrow> voice_call list \<Rightarrow> (int \<times> string) list" where
  "run_coach st [] = []"
| "run_coach st (c # cs) =
     (case generateVoiceCue st (call_now c) (call_comparison c) (call_ref c) (call_user c)
             (call_cue c) of
        (st', None) \<Rightarrow> run_coach st' cs
      | (st', Some m) \<Rightarrow> (call_now c, m) # run_coach st' cs)"

definition worst_held :: "segment \<Rightarrow> voice_call \<Rightarrow> bool" where
  \<comment> \<open>The comparison of the call, if it carries one, has the worst segment \<open>S\<close>, with
      a score below 55.\<close>
  "worst_held S c =
     (case call_comparison c of
        None \<Rightarrow> True
      | Some cmp \<Rightarrow>
          fst (worst_loop (segments cmp) (None, 100)) = Some S
          \<and> snd (worst_loop (segments cmp) (None, 100)) < 55)"

text \<open>
  An example session of the coach: the state after \<open>resetAudioCoach\<close>, and seven
  calls in which the left arm stays the worst segment with a score of 40.
\<close>

definition initialCoach :: coach_state where
  "initialCoach = \<lparr> lastSpeakTime = 0, lastSpokenSegment = None, enabled = True \<rparr>"

definition lowLeftArm :: comparison where
  "lowLeftArm =
     \<lparr> overall = 60,
       segments = [(leftArm, Some 40), (rightArm, Some 90), (leftLeg, None),
                   (rightLeg, Some 70), (torso, Some 80), (head, Some 95)],
       timestamp = 0 \<rparr>"

definition tick :: "int \<Rightarrow> voice_call" where
  "tick t = \<lparr> call_now = t, call_comparison = Some lowLeftArm,
              call_ref = Some standingPose, call_user = Some bentPose, call_cue = None \<rparr>"

definition demoCalls :: "voice_call list" where
  "demoCalls = map tick [5000, 7000, 9000, 11000, 13000, 15000, 21000]"



section \<open>Posecode extraction (poseDescriber.js)\<close>

text \<open>
  A posecode is modelled by its segment and its code; the display text \<open>desc\<close> of the
  source, a fixed sentence for each code and side, is left out.
\<close>

record posecode =
  pc_segment :: segment
  pc_code :: string

datatype body_side = left | right

definition NOSE :: nat where "NOSE = 0"
definition LEFT_SHOULDER :: nat where "LEFT_SHOULDER = 11"
definition RIGHT_SHOULDER :: nat where "RIGHT_SHOULDER = 12"
definition LEFT_ELBOW :: nat where "LEFT_ELBOW = 13"
definition RIGHT_ELBOW :: nat where "RIGHT_ELBOW = 14"
definition LEFT_WRIST :: nat where "LEFT_WRIST = 15"
definition RIGHT_WRIST :: nat where "RIGHT_WRIST = 16"
definition LEFT_HIP :: nat where "LEFT_HIP = 23"
definition RIGHT_HIP :: nat where "RIGHT_HIP = 24"
definition LEFT_KNEE :: nat where "LEFT_KNEE = 25"
definition RIGHT_KNEE :: nat where "RIGHT_KNEE = 26"
definition LEFT_ANKLE :: nat where "LEFT_ANKLE = 27"
definition RIGHT_ANKLE :: nat where "RIGHT_ANKLE = 28"

definition angle3 :: "landmark \<Rightarrow> landmark \<Rightarrow> landmark \<Rightarrow> real option" where
  "angle3 a b c =
     (let bax = lm_x a - lm_x b; bay = lm_y a - lm_y b;
          bcx = lm_x c - lm_x b; bcy = lm_y c - lm_y b;
          dot = bax * bcx + bay * bcy;
          magBA = sqrt (bax\<^sup>2 + bay\<^sup>2);
          magBC = sqrt (bcx\<^sup>2 + bcy\<^sup>2)
      in if magBA < 0.001 \<or> magBC < 0.001 then None
         else
           let cosAngle = max (-1) (min 1 (dot / (magBA * magBC)))
           in Some ((arccos cosAngle * 180) / pi))"

definition vis :: "pose \<Rightarrow> nat list \<Rightarrow> bool" where
  \<comment> \<open>\<open>indices.every(i => (lm[i]?.visibility || 0) >= 0.4)\<close>\<close>
  "vis lm indices =
     list_all (\<lambda>i. (case nth_opt lm i of None \<Rightarrow> 0 | Some l \<Rightarrow> vis_or0 l) \<ge> 0.4) indices"

definition midY :: "pose \<Rightarrow> nat \<Rightarrow> nat \<Rightarrow> real" where
  "midY lm a b = (lm_y (lm ! a) + lm_y (lm ! b)) / 2"

definition pc :: "segment \<Rightarrow> string \<Rightarrow> posecode" where
  "pc seg c = \<lparr> pc_segment = seg, pc_code = c \<rparr>"

definition arm_posecodes :: "pose \<Rightarrow> body_side \<Rightarrow> posecode list" where
  \<comment> \<open>One round of the loop over the two arms: the codes it pushes, in order.\<close>
  "arm_posecodes lm side =
     (let S = (if side = left then LEFT_SHOULDER else RIGHT_SHOULDER);
          E = (if side = left then LEFT_ELBOW else RIGHT_ELBOW);
          W = (if side = left then LEFT_WRIST else RIGHT_WRIST);
          H = (if side = left then LEFT_HIP else RIGHT_HIP);
          seg = (if side = left then leftArm else rightArm)
      in if \<not> vis lm [S, E, W] then []
         else
           (case angle3 (lm ! S) (lm ! E) (lm ! W) of
              None \<Rightarrow> []
            | Some elbowAngle \<Rightarrow>
                if elbowAngle < 60 then [pc seg ''arm_tightly_bent'']
                else if elbowAngle < 100 then [pc seg ''arm_bent'']
                else if elbowAngle > 155 then [pc seg ''arm_straight'']
                else [])
           @ (if lm_y (lm ! W) < lm_y (lm ! S) - 0.05 then
                (if lm_y (lm ! W) < lm_y (lm ! NOSE) then [pc seg ''arm_overhead'']
                 else [pc seg ''arm_raised''])
              else if lm_y (lm ! W) > lm_y (lm ! H) then [pc seg ''arm_dropped'']
              else [])
           @ (let xDist = \<bar>lm_x (lm ! W) - lm_x (lm ! S)\<bar>
              in if xDist > 0.15 \<and> \<bar>lm_y (lm ! W) - lm_y (lm ! S)\<bar> < 0.08
                 then [pc seg ''arm_extended_sideways''] else [])
           @ (let midX = (lm_x (lm ! LEFT_SHOULDER) + lm_x (lm ! RIGHT_SHOULDER)) / 2
              in (if side = left \<and> lm_x (lm ! W) > midX + 0.05
                  then [pc seg ''arm_crossed''] else [])
                 @ (if side = right \<and> lm_x (lm ! W) < midX - 0.05
                    then [pc seg ''arm_crossed''] else [])))"

definition leg_posecodes :: "pose \<Rightarrow> body_side \<Rightarrow> posecode list" where
  \<comment> \<open>One round of the loop over the two legs.\<close>
  "leg_posecodes lm side =
     (let H = (if side = left then LEFT_HIP else RIGHT_HIP);
          K = (if side = left then LEFT_KNEE else RIGHT_KNEE);
          A = (if side = left then LEFT_ANKLE else RIGHT_ANKLE);
          seg = (if side = left then leftLeg else rightLeg)
      in if \<not> vis lm [H, K, A] then []
         else
           (case angle3 (lm ! H) (lm ! K) (lm ! A) of
              None \<Rightarrow> []
            | Some kneeAngle \<Rightarrow>
                if kneeAngle < 90 then [pc seg ''knee_deep_bend'']
                else if kneeAngle < 140 then [pc seg ''knee_bent'']
                else if kneeAngle > 165 then [pc seg ''leg_straight'']
                else [])
           @ (if lm_y (lm ! K) < lm_y (lm ! H) - 0.03 then [pc seg ''leg_raised''] else [])
           @ (let hipMidX = (lm_x (lm ! LEFT_HIP) + lm_x (lm ! RIGHT_HIP)) / 2;
                  legSpread = \<bar>lm_x (lm ! A) - hipMidX\<bar>
              in if legSpread > 0.15 then [pc seg ''leg_spread''] else []))"

definition torso_posecodes :: "pose \<Rightarrow> posecode list" where
  "torso_posecodes lm =
     (if vis lm [LEFT_SHOULDER, RIGHT_SHOULDER, LEFT_HIP, RIGHT_HIP] then
        let shoulderMidY = midY lm LEFT_SHOULDER RIGHT_SHOULDER;
            hipMidY = midY lm LEFT_HIP RIGHT_HIP;
            shoulderMidX = (lm_x (lm ! LEFT_SHOULDER) + lm_x (lm ! RIGHT_SHOULDER)) / 2;
            hipMidX = (lm_x (lm ! LEFT_HIP) + lm_x (lm ! RIGHT_HIP)) / 2;
            xTilt = shoulderMidX - hipMidX;
            shoulderTilt = lm_y (lm ! LEFT_SHOULDER) - lm_y (lm ! RIGHT_SHOULDER);
            torsoHeight = \<bar>hipMidY - shoulderMidY\<bar>
        in (if \<bar>xTilt\<bar> > 0.04
            then [pc torso (if xTilt > 0 then ''torso_lean_right'' else ''torso_lean_left'')]
            else [])
           @ (if \<bar>shoulderTilt\<bar> > 0.04 then [pc torso ''shoulders_tilted''] else [])
           @ (if torsoHeight < 0.08 then [pc torso ''torso_compact''] else [])
      else [])"

definition head_posecodes :: "pose \<Rightarrow> posecode list" where
  "head_posecodes lm =
     (if vis lm [NOSE, LEFT_SHOULDER, RIGHT_SHOULDER] then
        let shoulderMidX = (lm_x (lm ! LEFT_SHOULDER) + lm_x (lm ! RIGHT_SHOULDER)) / 2;
            shoulderMidY' = midY lm LEFT_SHOULDER RIGHT_SHOULDER;
            headTiltX = lm_x (lm ! NOSE) - shoulderMidX
        in (if \<bar>headTiltX\<bar> > 0.05 then [pc head ''head_tilted''] else [])
           @ (if lm_y (lm ! NOSE) > shoulderMidY' + 0.02 then [pc head ''head_dropped''] else [])
      else [])"

definition extractPosecodes :: "pose \<Rightarrow> posecode list option" where
  "extractPosecodes landmarks =
     (if length landmarks < 33 then None
      else Some (arm_posecodes landmarks left @ arm_posecodes landmarks right
                 @ leg_posecodes landmarks left @ leg_posecodes landmarks right
                 @ torso_posecodes landmarks @ head_posecodes landmarks))"

text \<open>The standing figure with the left hip at visibility 0.1.\<close>

definition hipHiddenPose :: pose where
  "hipHiddenPose = standingPose[23 := pt 1 0 0.1]"

section \<open>Session samples and the timeline (feedbackEngine.js)\<close>

text \<open>
  A session sample is a comparison result together with the two poses and the
  playback time of the reference video; the three additions may be missing.
\<close>

record sample = comparison +
  refPose :: "pose option"
  userPose :: "pose option"
  videoTime :: "real option"

definition slice :: "'a list \<Rightarrow> nat \<Rightarrow> nat \<Rightarrow> 'a list" where
  \<comment> \<open>\<open>xs.slice(i, j)\<close> for \<open>0 \<le> i \<le> j\<close>; the end is clipped to the length.\<close>
  "slice xs i j = take (j - i) (drop i xs)"






















text \<open>
  Example sessions: samples taken every 300 ms, each with an overall score and the
  scores of the two arms.
\<close>

definition smp :: "int \<Rightarrow> real \<Rightarrow> real option \<Rightarrow> real option \<Rightarrow> sample" where
  "smp t sc la ra =
     \<lparr> overall = sc,
       segments = [(leftArm, la), (rightArm, ra), (leftLeg, None), (rightLeg, None),
                   (torso, None), (head, None)],
       timestamp = t,
       refPose = Some standingPose, userPose = Some bentPose,
       videoTime = Some (real_of_int t / 1000) \<rparr>"


section \<open>Worst moments (findWorstMoments.js)\<close>

text \<open>
  An entry of \<open>rollingAvgs\<close>; its fields \<open>avg\<close>, \<open>startVideoTime\<close>, \<open>endVideoTime\<close> and
  \<open>samples\<close> are named \<open>win_avg\<close>, \<open>win_start\<close>, \<open>win_end\<close> and \<open>win_samples\<close>.
\<close>

record window =
  index :: nat
  win_avg :: real
  win_start :: real
  win_end :: real
  win_samples :: "sample list"

record moment =
  startVideoTime :: real
  endVideoTime :: real
  avgScore :: real
  samples :: "sample list"
  centerIndex :: nat

definition valid_sample :: "sample \<Rightarrow> bool" where
  \<comment> \<open>\<open>d.videoTime !== undefined && d.refPose && d.userPose\<close>\<close>
  "valid_sample d \<longleftrightarrow> videoTime d \<noteq> None \<and> refPose d \<noteq> None \<and> userPose d \<noteq> None"

definition video_time :: "sample \<Rightarrow> real" where
  \<comment> \<open>Read on valid samples only, whose \<open>videoTime\<close> is present.\<close>
  "video_time d = (case videoTime d of None \<Rightarrow> 0 | Some t \<Rightarrow> t)"

definition window_samples :: "real \<Rightarrow> sample list \<Rightarrow> nat option" where
  \<comment> \<open>\<open>windowSamples\<close>.  When all samples carry the same timestamp the source divides
      by zero: for a positive \<open>windowSec\<close> the quotient is \<open>Infinity\<close>, for 0 it is
      \<open>NaN\<close>, and so is \<open>windowSamples\<close>; then no window fits and the result is empty
      (\<open>None\<close> here).  For a negative \<open>windowSec\<close> it is \<open>-Infinity\<close>, and
      \<open>windowSamples\<close> is 3.\<close>
  "window_samples windowSec validData =
     (let totalDurationMs =
            timestamp (validData ! (length validData - 1)) - timestamp (validData ! 0);
          avgSampleIntervalMs = real_of_int totalDurationMs / real (length validData - 1)
      in if avgSampleIntervalMs = 0 then (if windowSec * 1000 < 0 then Some 3 else None)
         else Some (nat (max 3 (js_round ((windowSec * 1000) / avgSampleIntervalMs)))))"

definition guard_zone :: "nat \<Rightarrow> nat" where
  "guard_zone windowSamples = max windowSamples (nat (js_round (real windowSamples * 1.5)))"

definition make_window :: "sample list \<Rightarrow> nat \<Rightarrow> nat \<Rightarrow> window" where
  "make_window validData windowSamples i =
     (let win = slice validData i (i + windowSamples)
      in \<lparr> index = i,
           win_avg = sum_list (map overall win) / real (length win),
           win_start = video_time (win ! 0),
           win_end = video_time (win ! (length win - 1)),
           win_samples = win \<rparr>)"

definition rolling_avgs :: "sample list \<Rightarrow> nat \<Rightarrow> window list" where
  \<comment> \<open>The loop \<open>for (i = 0; i <= validData.length - windowSamples; i++)\<close>.\<close>
  "rolling_avgs validData windowSamples =
     map (make_window validData windowSamples) [0 ..< Suc (length validData) - windowSamples]"

definition make_moment :: "nat \<Rightarrow> window \<Rightarrow> moment" where
  "make_moment windowSamples candidate =
     \<lparr> startVideoTime = win_start candidate,
       endVideoTime = win_end candidate,
       avgScore = real_of_int (js_round (win_avg candidate * 10)) / 10,
       samples = win_samples candidate,
       centerIndex = index candidate + windowSamples div 2 \<rparr>"

fun pick_loop :: "nat \<Rightarrow> nat \<Rightarrow> nat \<Rightarrow> nat \<Rightarrow> window list \<Rightarrow> moment list \<times> nat set
    \<Rightarrow> moment list" where
  \<comment> \<open>The greedy loop over the sorted candidates; the state is \<open>(results, usedIndices)\<close>.
      The lower end of the guard zone is \<open>Math.max(0, index - guardZone)\<close>: subtraction
      on \<open>nat\<close> stops at 0.\<close>
  "pick_loop count windowSamples guardZone n [] (results, usedIndices) = results"
| "pick_loop count windowSamples guardZone n (candidate # rest) (results, usedIndices) =
     (if length results \<ge> count then results
      else if list_ex (\<lambda>i. i \<in> usedIndices) [index candidate ..< index candidate + windowSamples]
      then pick_loop count windowSamples guardZone n rest (results, usedIndices)
      else pick_loop count windowSamples guardZone n rest
             (results @ [make_moment windowSamples candidate],
              usedIndices \<union> set [index candidate - guardZone
                                   ..< min n (index candidate + windowSamples + guardZone)]))"

definition findWorstMoments :: "sample list \<Rightarrow> nat \<Rightarrow> real \<Rightarrow> moment list" where
  \<comment> \<open>Both sorts of the source compare numbers by their difference; \<open>sort_key\<close> is a
      stable sort by that key.\<close>
  "findWorstMoments sessionData count windowSec =
     (if length sessionData < 5 then []
      else
        let validData = filter valid_sample sessionData
        in if length validData < 5 then []
           else
             (case window_samples windowSec validData of
                None \<Rightarrow> []
              | Some windowSamples \<Rightarrow>
                  let rollingAvgs = rolling_avgs validData windowSamples
                  in if rollingAvgs = [] then []
                     else
                       let sorted_avgs = sort_key win_avg rollingAvgs;
                           guardZone = guard_zone windowSamples;
                           results = pick_loop count windowSamples guardZone (length validData)
                                       sorted_avgs ([], {})
                       in sort_key startVideoTime results))"

text \<open>
  To state the separation of the windows: two moments are apart when the windows they
  were cut from (start index = centre index minus half the window length) leave the
  guard zone between them.
\<close>

definition apart :: "nat \<Rightarrow> moment \<Rightarrow> moment \<Rightarrow> bool" where
  "apart windowSamples a b \<longleftrightarrow>
     centerIndex a + windowSamples + guard_zone windowSamples \<le> centerIndex b \<or>
     centerIndex b + windowSamples + guard_zone windowSamples \<le> centerIndex a"

definition cut_at :: "sample list \<Rightarrow> nat \<Rightarrow> moment \<Rightarrow> nat \<Rightarrow> bool" where
  \<comment> \<open>The moment is the window of the valid samples that starts at index \<open>i\<close>.\<close>
  "cut_at validData windowSamples m i \<longleftrightarrow>
     i + windowSamples \<le> length validData \<and>
     centerIndex m = i + windowSamples div 2 \<and>
     samples m = slice validData i (i + windowSamples)"

text \<open>
  An example session of thirteen samples, one second apart; the fourth carries no
  playback time.  The scores are low in the first three and the last three valid
  samples.
\<close>

definition sec :: "int \<Rightarrow> real \<Rightarrow> sample" where
  "sec t sc = smp (t * 1000) sc None None"

definition thirteenSamples :: "sample list" where
  "thirteenSamples =
     [sec 0 30, sec 1 30, sec 2 30, (sec 3 10)\<lparr> videoTime := None \<rparr>, sec 3 90, sec 4 90,
      sec 5 90, sec 6 90, sec 7 90, sec 8 90, sec 9 20, sec 10 20, sec 11 20]"

text \<open>The valid samples of the example session.\<close>

definition validTwelve :: "sample list" where
  "validTwelve = [sec 0 30, sec 1 30, sec 2 30, sec 3 90, sec 4 90,
      sec 5 90, sec 6 90, sec 7 90, sec 8 90, sec 9 20, sec 10 20, sec 11 20]"

text \<open>
  The invariant of the greedy loop (every accepted window lies in the valid samples,
  its guard zone is claimed, accepted windows are apart, and each of them claimed
  \<open>w\<close> fresh indices), and what the loop needs of a candidate.
\<close>

definition pick_inv :: "sample list \<Rightarrow> nat \<Rightarrow> moment list \<Rightarrow> nat set \<Rightarrow> bool" where
  "pick_inv validData w results used \<longleftrightarrow>
     used \<subseteq> {..< length validData} \<and>
     length results * w \<le> card used \<and>
     distinct (map centerIndex results) \<and>
     (\<forall>m \<in> set results. \<exists>i. cut_at validData w m i \<and>
         (\<forall>j. i - guard_zone w \<le> j \<and> j < i + w + guard_zone w \<and> j < length validData
              \<longrightarrow> j \<in> used)) \<and>
     (\<forall>a \<in> set results. \<forall>b \<in> set results. centerIndex a \<noteq> centerIndex b \<longrightarrow> apart w a b)"

definition cand_ok :: "sample list \<Rightarrow> nat \<Rightarrow> window \<Rightarrow> bool" where
  "cand_ok validData w c \<longleftrightarrow>
     index c + w \<le> length validData \<and> win_samples c = slice validData (index c) (index c + w)"


section \<open>Properties of the mirror operation\<close>

lemma foldl_swap_nth:
  "\<forall>p \<in> set ps. fst p < length xs \<and> snd p < length xs \<Longrightarrow> i < length xs \<Longrightarrow>
   length (foldl swap_step xs ps) = length xs \<and>
   swaps_index ps i < length xs \<and>
   foldl swap_step xs ps ! i = xs ! swaps_index ps i"
proof (induction ps arbitrary: xs i)
  case Nil
  then show ?case by simp
next
  case (Cons p ps)
  obtain l r where p: "p = (l, r)" by (cases p)
  let ?ys = "swap_step xs p"
  have len: "length ?ys = length xs" by (simp add: swap_step_def p Let_def)
  have lr: "l < length xs" "r < length xs" using Cons.prems(1) p by auto
  have IH: "length (foldl swap_step ?ys ps) = length ?ys \<and>
   swaps_index ps i < length ?ys \<and>
   foldl swap_step ?ys ps ! i = ?ys ! swaps_index ps i"
    using Cons.IH[of ?ys i] Cons.prems len by simp
  have step: "\<And>j. j < length xs \<Longrightarrow> ?ys ! j = xs ! (if j = l then r else if j = r then l else j)"
    using lr by (auto simp: swap_step_def p Let_def nth_list_update)
  show ?case using IH len lr step[of "swaps_index ps i"]
    by (auto simp: p Let_def)
qed

lemma swaps_index_fixed: "i \<notin> set (pair_entries ps) \<Longrightarrow> swaps_index ps i = i"
  by (induction ps) (auto simp: pair_entries_def Let_def)

lemma swaps_index_bound:
  "\<forall>e \<in> set (pair_entries ps). e < n \<Longrightarrow> i < n \<Longrightarrow> swaps_index ps i < n"
  by (induction ps) (auto simp: pair_entries_def Let_def)

lemma swaps_index_invol:
  "distinct (pair_entries ps) \<Longrightarrow> swaps_index ps (swaps_index ps i) = i"
proof (induction ps arbitrary: i)
  case Nil
  then show ?case by simp
next
  case (Cons p ps)
  obtain l r where p: "p = (l, r)" by (cases p)
  have d: "distinct (pair_entries ps)" "l \<notin> set (pair_entries ps)"
    "r \<notin> set (pair_entries ps)" "l \<noteq> r"
    using Cons.prems by (auto simp: pair_entries_def p)
  have fl: "swaps_index ps l = l" and fr: "swaps_index ps r = r"
    using d swaps_index_fixed by simp_all
  have inv: "\<And>j. swaps_index ps (swaps_index ps j) = j" using Cons.IH[OF d(1)] .
  have il: "swaps_index ps i = l \<Longrightarrow> i = l" using inv[of i] fl by simp
  have ir: "swaps_index ps i = r \<Longrightarrow> i = r" using inv[of i] fr by simp
  show ?case
    using fl fr inv[of i] il ir d(4) by (auto simp: p Let_def)
qed

lemma swap_entries_distinct: "distinct (pair_entries SWAP_PAIRS)"
  by (simp add: pair_entries_def SWAP_PAIRS_def)

lemma swap_entries_bound: "\<forall>e \<in> set (pair_entries SWAP_PAIRS). e < 33"
  by (simp add: pair_entries_def SWAP_PAIRS_def)

lemma swapped_lt: "i < 33 \<Longrightarrow> swapped_index i < 33 \<and> swapped_index (swapped_index i) = i"
  unfolding swapped_index_def
  using swaps_index_invol[OF swap_entries_distinct, of i]
    swaps_index_bound[OF swap_entries_bound, of i]
  by blast

lemma mirror_nth:
  assumes "length P = 33" "i < 33"
  shows "mirrorPose P ! i =
     \<lparr> lm_x = - lm_x (P ! swapped_index i), lm_y = lm_y (P ! swapped_index i),
       lm_z = lm_z (P ! swapped_index i), visibility = visibility (P ! swapped_index i) \<rparr>"
    and "length (mirrorPose P) = 33"
proof -
  let ?Q = "map (\<lambda>lm. \<lparr> lm_x = - lm_x lm, lm_y = lm_y lm, lm_z = lm_z lm,
                     visibility = visibility lm \<rparr>) P"
  have "\<forall>p \<in> set SWAP_PAIRS. fst p < 33 \<and> snd p < 33"
    by (simp add: SWAP_PAIRS_def)
  then have rng: "\<forall>p \<in> set SWAP_PAIRS. fst p < length ?Q \<and> snd p < length ?Q"
    using assms(1) by simp
  have i: "i < length ?Q" using assms by simp
  have s: "swapped_index i < 33" using swapped_lt[OF assms(2)] by simp
  from foldl_swap_nth[OF rng i] assms s
  show "mirrorPose P ! i =
     \<lparr> lm_x = - lm_x (P ! swapped_index i), lm_y = lm_y (P ! swapped_index i),
       lm_z = lm_z (P ! swapped_index i), visibility = visibility (P ! swapped_index i) \<rparr>"
    and "length (mirrorPose P) = 33"
    by (simp_all add: mirrorPose_def swapped_index_def)
qed

text \<open>
  Claim C10.  Mirroring keeps every landmark's visibility value (the landmark found at
  index \<open>i\<close> of the mirrored pose carries the visibility of the input landmark it
  comes from, the one at the swapped index), and mirroring a pose of 33 landmarks
  twice gives back exactly the pose.
\<close>

theorem mirrorPose_involution:
  assumes "length P = 33"
  shows "mirrorPose (mirrorPose P) = P \<and>
         length (mirrorPose P) = 33 \<and>
         (\<forall>i < 33. visibility (mirrorPose P ! i) = visibility (P ! swapped_index i))"
proof -
  have len: "length (mirrorPose P) = 33" using mirror_nth(2)[OF assms, of 0] by simp
  have vis: "\<forall>i < 33. visibility (mirrorPose P ! i) = visibility (P ! swapped_index i)"
    using mirror_nth(1)[OF assms] by simp
  have "mirrorPose (mirrorPose P) ! i = P ! i" if "i < 33" for i
  proof -
    have s: "swapped_index i < 33" "swapped_index (swapped_index i) = i"
      using swapped_lt[OF that] by simp_all
    show ?thesis
      using mirror_nth(1)[OF len that] mirror_nth(1)[OF assms s(1)] s(2) by simp
  qed
  moreover have "length (mirrorPose (mirrorPose P)) = length P"
    using mirror_nth(2)[OF len, of 0] assms by simp
  ultimately have "mirrorPose (mirrorPose P) = P"
    using assms by (simp add: nth_equalityI)
  then show ?thesis using len vis by simp
qed

lemma swapped_index_11: "swapped_index 11 = 12"
  by (simp add: swapped_index_def SWAP_PAIRS_def Let_def)

theorem mirrorPose_involution_witness:
  "length standingPose = 33 \<and> mirrorPose (mirrorPose standingPose) = standingPose \<and>
   visibility (standingPose ! 11) = Some 0.9 \<and>
   visibility (mirrorPose standingPose ! 11) = Some 0.8"
proof -
  have l: "length standingPose = 33" by (simp add: standingPose_def)
  have v: "visibility (standingPose ! 12) = Some 0.8" "visibility (standingPose ! 11) = Some 0.9"
    by (simp_all add: standingPose_def pt_def)
  show ?thesis using mirrorPose_involution[OF l] l v swapped_index_11 by simp
qed

section \<open>Properties of the normalizer\<close>

lemma normalizePose_Some_iff:
  "normalizePose P = Some Q \<longleftrightarrow>
     33 \<le> length P \<and> 0.001 \<le> torso_length P \<and>
     Q = map (norm_lm (midpoint (P ! 23) (P ! 24)) (torso_length P)) P"
  by (auto simp: normalizePose_def Let_def norm_lm_def torso_length_def fun_eq_iff)

lemma normalizePose_None_iff:
  "normalizePose P = None \<longleftrightarrow> length P < 33 \<or> torso_length P < 0.001"
  by (auto simp: normalizePose_def Let_def torso_length_def)

lemma norm_lm_fix:
  "lm_z lm = Some a \<Longrightarrow> visibility lm = Some b \<Longrightarrow>
   lm_x m = 0 \<Longrightarrow> lm_y m = 0 \<Longrightarrow> z_or0 m = 0 \<Longrightarrow> norm_lm m 1 lm = lm"
  by (simp add: norm_lm_def z_or0_def vis_or0_def)

lemma sum_sq_div:
  fixes a b c L :: real
  shows "(a / L)\<^sup>2 + (b / L)\<^sup>2 + (c / L)\<^sup>2 = (a\<^sup>2 + b\<^sup>2 + c\<^sup>2) / L\<^sup>2"
  by (simp add: power_divide add_divide_distrib)

lemma normalized_frame:
  assumes "normalizePose P = Some Q"
  shows "lm_x (midpoint (Q ! 23) (Q ! 24)) = 0"
    and "lm_y (midpoint (Q ! 23) (Q ! 24)) = 0"
    and "z_or0 (midpoint (Q ! 23) (Q ! 24)) = 0"
    and "torso_length Q = 1"
    and "length Q = length P"
proof -
  let ?m = "midpoint (P ! 23) (P ! 24)"
  let ?s = "midpoint (P ! 11) (P ! 12)"
  let ?L = "torso_length P"
  from assms have len: "33 \<le> length P" and L: "0.001 \<le> ?L"
    and Q: "Q = map (norm_lm ?m ?L) P"
    by (simp_all add: normalizePose_Some_iff)
  have Lpos: "0 < ?L" using L by simp
  have nth: "\<And>i. i < 33 \<Longrightarrow> Q ! i = norm_lm ?m ?L (P ! i)"
    using len Q by simp
  show "length Q = length P" using Q by simp
  show mx: "lm_x (midpoint (Q ! 23) (Q ! 24)) = 0"
    using Lpos by (simp add: nth midpoint_def norm_lm_def field_simps)
  show my: "lm_y (midpoint (Q ! 23) (Q ! 24)) = 0"
    using Lpos by (simp add: nth midpoint_def norm_lm_def field_simps)
  show mz: "z_or0 (midpoint (Q ! 23) (Q ! 24)) = 0"
    using Lpos by (simp add: nth midpoint_def norm_lm_def z_or0_def field_simps)
  have sx: "lm_x (midpoint (Q ! 11) (Q ! 12)) = (lm_x ?s - lm_x ?m) / ?L"
    using Lpos by (simp add: nth midpoint_def norm_lm_def field_simps)
  have sy: "lm_y (midpoint (Q ! 11) (Q ! 12)) = (lm_y ?s - lm_y ?m) / ?L"
    using Lpos by (simp add: nth midpoint_def norm_lm_def field_simps)
  have sz: "z_or0 (midpoint (Q ! 11) (Q ! 12)) = (z_or0 ?s - z_or0 ?m) / ?L"
    using Lpos by (simp add: nth midpoint_def norm_lm_def z_or0_def field_simps)
  have "torso_length Q =
      sqrt ((lm_x (midpoint (Q ! 11) (Q ! 12)) - lm_x (midpoint (Q ! 23) (Q ! 24)))\<^sup>2
          + (lm_y (midpoint (Q ! 11) (Q ! 12)) - lm_y (midpoint (Q ! 23) (Q ! 24)))\<^sup>2
          + (z_or0 (midpoint (Q ! 11) (Q ! 12)) - z_or0 (midpoint (Q ! 23) (Q ! 24)))\<^sup>2)"
    by (simp only: torso_length_def distance_def)
  also have "\<dots> =
      sqrt (((lm_x ?s - lm_x ?m) / ?L)\<^sup>2 + ((lm_y ?s - lm_y ?m) / ?L)\<^sup>2
            + ((z_or0 ?s - z_or0 ?m) / ?L)\<^sup>2)"
    by (simp only: sx sy sz mx my mz diff_zero)
  also have "\<dots> = sqrt (((lm_x ?s - lm_x ?m)\<^sup>2 + (lm_y ?s - lm_y ?m)\<^sup>2
            + (z_or0 ?s - z_or0 ?m)\<^sup>2) / ?L\<^sup>2)"
    by (simp only: sum_sq_div)
  also have "\<dots> = sqrt (?L\<^sup>2 / ?L\<^sup>2)"
  proof -
    have "(lm_x ?s - lm_x ?m)\<^sup>2 + (lm_y ?s - lm_y ?m)\<^sup>2
            + (z_or0 ?s - z_or0 ?m)\<^sup>2 = ?L\<^sup>2"
      unfolding torso_length_def distance_def
      by (simp add: real_sqrt_pow2_iff)
    then show ?thesis by simp
  qed
  also have "\<dots> = 1" using Lpos by simp
  finally show "torso_length Q = 1" .
qed

text \<open>
  Claim C3.  Normalization is idempotent: when \<open>normalizePose\<close> succeeds on a pose,
  normalizing its output succeeds and returns that output, with the same coordinates
  and the same visibility values.  (Over the real numbers the equality is exact, so
  it holds within any tolerance.)
\<close>

theorem normalizePose_idempotent:
  assumes "normalizePose P = Some Q"
  shows "normalizePose Q = Some Q"
proof -
  let ?m = "midpoint (Q ! 23) (Q ! 24)"
  note fr = normalized_frame[OF assms]
  from assms have len: "33 \<le> length P"
    and Q: "Q = map (norm_lm (midpoint (P ! 23) (P ! 24)) (torso_length P)) P"
    by (simp_all add: normalizePose_Some_iff)
  have "norm_lm ?m 1 lm = lm" if "lm \<in> set Q" for lm
  proof -
    from that Q obtain a b where "lm_z lm = Some a" "visibility lm = Some b"
      by (auto simp: norm_lm_def)
    then show ?thesis using fr(1,2,3) by (rule norm_lm_fix)
  qed
  then have "map (norm_lm ?m 1) Q = Q"
    by (simp add: map_idI)
  then show ?thesis
    using fr(4,5) len by (simp add: normalizePose_Some_iff)
qed

lemma normalizePose_cameraPose: "normalizePose cameraPose = Some standingPose"
  by (simp add: normalizePose_def cameraPose_def standingPose_def raw_pt_def pt_def
      midpoint_def distance_def z_or0_def vis_or0_def Let_def)

theorem normalizePose_idempotent_witness:
  "normalizePose cameraPose = Some standingPose \<and>
   normalizePose standingPose = Some standingPose"
  using normalizePose_idempotent[OF normalizePose_cameraPose] normalizePose_cameraPose
  by simp

section \<open>Properties of the similarity scorer\<close>

lemma cosineSim_self: "0.0001 \<le> magnitude v \<Longrightarrow> cosineSim v v = 1"
proof -
  assume m: "0.0001 \<le> magnitude v"
  let ?q = "(vx v)\<^sup>2 + (vy v)\<^sup>2 + (vz v)\<^sup>2"
  have ge: "\<not> sqrt ?q < 0.0001" using m unfolding magnitude_def by linarith
  have c: "(0::real) < 0.0001" by simp
  have "0 < sqrt ?q" using m c unfolding magnitude_def by linarith
  then have q: "0 < ?q" by simp
  have "cosineSim v v = (vx v * vx v + vy v * vy v + vz v * vz v) / (sqrt ?q * sqrt ?q)"
    using ge by (simp only: cosineSim_def Let_def if_False simp_thms)
  also have "\<dots> = ?q / ?q"
    using q by (simp add: power2_eq_square)
  also have "\<dots> = 1" using q by simp
  finally show ?thesis .
qed

lemma pairs_loop_self:
  "\<forall>p \<in> set ps. 0.4 \<le> vis_or0 (N ! fst p) \<and> 0.4 \<le> vis_or0 (N ! snd p) \<and>
       0.0001 \<le> bone_length N p \<Longrightarrow>
   pairs_loop N N ps (t, v) = (t + real (length ps), v + length ps)"
proof (induction ps arbitrary: t v)
  case Nil
  then show ?case by simp
next
  case (Cons p ps)
  obtain a b where p: "p = (a, b)" by (cases p)
  from Cons.prems p have va: "0.4 \<le> vis_or0 (N ! a)" and vb: "0.4 \<le> vis_or0 (N ! b)"
    and bl: "0.0001 \<le> magnitude (vecBetween (N ! a) (N ! b))"
    by (simp_all add: bone_length_def)
  have rest: "\<forall>p \<in> set ps. 0.4 \<le> vis_or0 (N ! fst p) \<and> 0.4 \<le> vis_or0 (N ! snd p) \<and>
       0.0001 \<le> bone_length N p"
    using Cons.prems by simp
  have "\<not> min (min (vis_or0 (N ! a)) (vis_or0 (N ! b)))
             (min (vis_or0 (N ! a)) (vis_or0 (N ! b))) < 0.4"
    using va vb by simp
  then show ?case
    using Cons.IH[OF rest] cosineSim_self[OF bl] by (simp add: p Let_def)
qed

lemma segment_score_self:
  assumes "\<forall>p \<in> set (pairs seg). 0.4 \<le> vis_or0 (N ! fst p) \<and> 0.4 \<le> vis_or0 (N ! snd p) \<and>
       0.0001 \<le> bone_length N p"
    and "pairs seg \<noteq> []"
  shows "segment_score N N seg = Some 100"
proof -
  have l: "0 < length (pairs seg)" using assms(2) by simp
  show ?thesis
    using pairs_loop_self[OF assms(1), of 0 0] l
    by (simp add: segment_score_def)
qed

lemma all_bones_mem: "p \<in> set (pairs (BODY_SEGMENTS name)) \<Longrightarrow> p \<in> set all_bones"
  by (cases name) (auto simp: all_bones_def segment_keys_def)

lemma all_bones_range: "p \<in> set all_bones \<Longrightarrow> fst p < 33 \<and> snd p < 33"
  by (auto simp: all_bones_def segment_keys_def)

lemma pairs_nonempty: "pairs (BODY_SEGMENTS name) \<noteq> []"
  by (cases name) simp_all

lemma weight_loop_full:
  "weight_loop (map (\<lambda>name. (name, Some 100)) segment_keys) (0, 0) = (750, 7.5)"
  by (simp add: segment_keys_def)

text \<open>In exact arithmetic a pose compared with itself scores exactly 100 everywhere.\<close>

lemma comparePoses_self_exact:
  assumes "normalizePose P = Some N"
    and "\<forall>lm \<in> set P. 0.4 \<le> vis_or0 lm"
    and "\<forall>p \<in> set all_bones. 0.0001 \<le> bone_length N p"
  shows "comparePoses now P P =
     Some \<lparr> overall = 100, segments = map (\<lambda>name. (name, Some 100)) segment_keys,
            timestamp = now \<rparr>"
proof -
  from assms(1) have len: "33 \<le> length P"
    and N: "N = map (norm_lm (midpoint (P ! 23) (P ! 24)) (torso_length P)) P"
    by (simp_all add: normalizePose_Some_iff)
  have vis: "0.4 \<le> vis_or0 (N ! i)" if "i < 33" for i
  proof -
    have "i < length P" using that len by simp
    then have "vis_or0 (N ! i) = vis_or0 (P ! i)" "P ! i \<in> set P"
      by (simp_all add: N norm_lm_def vis_or0_def)
    then show ?thesis using assms(2) by simp
  qed
  have seg: "segment_score N N (BODY_SEGMENTS name) = Some 100" for name
  proof (rule segment_score_self)
    show "pairs (BODY_SEGMENTS name) \<noteq> []" by (rule pairs_nonempty)
    show "\<forall>p \<in> set (pairs (BODY_SEGMENTS name)).
        0.4 \<le> vis_or0 (N ! fst p) \<and> 0.4 \<le> vis_or0 (N ! snd p) \<and> 0.0001 \<le> bone_length N p"
      using all_bones_mem all_bones_range assms(3) vis by blast
  qed
  show ?thesis
    by (simp add: comparePoses_def assms(1) seg weight_loop_full js_round_def)
qed

lemma scores_close_refl: "0 \<le> tol \<Longrightarrow> scores_close tol xs xs"
  by (auto simp: scores_close_def list_all2_same split: option.splits)

text \<open>
  Claim C1 (as amended).  For every pose of ordinary magnitude on which normalization
  succeeds, with every landmark of visibility at least 0.4 and with every bone of the
  six body segments of normalized length at least 0.00011 (clear of the guard at
  0.0001 below which \<open>cosineSim\<close> returns 0), \<open>comparePoses(P, P)\<close> returns overall 100
  and, for each of the six segments, a score that is 100 up to rounding error (within
  \<open>10\<^sup>-\<^sup>9\<close> of 100).
\<close>

theorem comparePoses_self:
  assumes "normalizePose P = Some N"
    and "ordinary_pose P"
    and "\<forall>lm \<in> set P. 0.4 \<le> vis_or0 lm"
    and "\<forall>p \<in> set all_bones. 0.00011 \<le> bone_length N p"
  shows "\<exists>c. comparePoses now P P = Some c \<and> overall c = 100 \<and>
           scores_close (1 / 10 ^ 9) (segments c) (map (\<lambda>name. (name, Some 100)) segment_keys)"
proof -
  have "\<forall>p \<in> set all_bones. 0.0001 \<le> bone_length N p"
  proof
    fix p assume "p \<in> set all_bones"
    then have "0.00011 \<le> bone_length N p" using assms(4) by blast
    moreover have "(0.0001::real) \<le> 0.00011" by simp
    ultimately show "0.0001 \<le> bone_length N p" by (rule order_trans[rotated])
  qed
  from comparePoses_self_exact[OF assms(1,3) this, of now]
  show ?thesis by (simp add: scores_close_refl)
qed


text \<open>
  Without the condition on the bones the statement fails: a bone of length 0 has
  cosine similarity 0 by the guard of \<open>cosineSim\<close>, so the left arm of \<open>bentPose\<close>
  scores 75 against itself and the overall score is 95.
\<close>

theorem comparePoses_self_counterexample:
  "length bentPose = 33 \<and> list_all (\<lambda>lm. 0.4 \<le> vis_or0 lm) bentPose \<and>
   0.001 \<le> torso_length bentPose \<and>
   comparePoses 0 bentPose bentPose =
     Some \<lparr> overall = 95,
            segments = [(leftArm, Some 75), (rightArm, Some 100), (leftLeg, Some 100),
                        (rightLeg, Some 100), (torso, Some 100), (head, Some 100)],
            timestamp = 0 \<rparr>"
  by (simp add: comparePoses_def normalizePose_def bentPose_def pt_def torso_length_def
      midpoint_def distance_def z_or0_def vis_or0_def Let_def segment_keys_def
      segment_score_def vecBetween_def cosineSim_def js_round_def)

lemma ordinary_cameraPose: "ordinary_pose cameraPose"
proof -
  have t: "torso_length cameraPose = 2"
    by (simp add: torso_length_def cameraPose_def raw_pt_def midpoint_def distance_def z_or0_def)
  show ?thesis
    unfolding ordinary_pose_def t
    by (simp add: cameraPose_def raw_pt_def z_or0_def)
qed

theorem comparePoses_self_witness:
  "normalizePose cameraPose = Some standingPose \<and> ordinary_pose cameraPose \<and>
   list_all (\<lambda>lm. 0.4 \<le> vis_or0 lm) cameraPose \<and>
   list_all (\<lambda>p. 0.00011 \<le> bone_length standingPose p) all_bones \<and>
   overall (the (comparePoses 0 cameraPose cameraPose)) = 100 \<and>
   scores_close (1 / 10 ^ 9) (segments (the (comparePoses 0 cameraPose cameraPose)))
     [(leftArm, Some 100), (rightArm, Some 100), (leftLeg, Some 100),
      (rightLeg, Some 100), (torso, Some 100), (head, Some 100)]"
proof -
  have v: "list_all (\<lambda>lm. 0.4 \<le> vis_or0 lm) cameraPose"
    by (simp add: cameraPose_def raw_pt_def vis_or0_def)
  have b: "list_all (\<lambda>p. 0.00011 \<le> bone_length standingPose p) all_bones"
    by (simp add: all_bones_def segment_keys_def bone_length_def magnitude_def
        vecBetween_def standingPose_def pt_def z_or0_def)
  have k: "map (\<lambda>name. (name, Some (100::real))) segment_keys =
      [(leftArm, Some 100), (rightArm, Some 100), (leftLeg, Some 100),
      (rightLeg, Some 100), (torso, Some 100), (head, Some 100)]"
    by (simp add: segment_keys_def)
  from comparePoses_self[OF normalizePose_cameraPose ordinary_cameraPose, of 0] v b
  obtain c where "comparePoses 0 cameraPose cameraPose = Some c" "overall c = 100"
    "scores_close (1 / 10 ^ 9) (segments c) (map (\<lambda>name. (name, Some 100)) segment_keys)"
    by (auto simp: list_all_iff)
  then show ?thesis
    using v b normalizePose_cameraPose ordinary_cameraPose by (simp add: k)
qed


lemma weight_loop_none:
  "\<forall>e \<in> set xs. snd e = None \<Longrightarrow> weight_loop xs acc = acc"
proof (induction xs arbitrary: acc)
  case Nil
  then show ?case by simp
next
  case (Cons e xs)
  obtain name score where e: "e = (name, score)" by (cases e)
  obtain ws wt where acc: "acc = (ws, wt)" by (cases acc)
  from Cons.prems e have "score = None" by simp
  then show ?case using Cons e acc by simp
qed

text \<open>
  Claim C9.  \<open>comparePoses\<close> returns the absent result exactly when normalization of
  one of the two poses fails, which happens exactly when that pose has fewer than 33
  landmarks or a torso length below 0.001; in every other case it returns a result,
  and when every segment score of the result is absent the overall score is the
  number 0.
\<close>

theorem comparePoses_absent_iff:
  "(comparePoses now R U = None \<longleftrightarrow> normalizePose R = None \<or> normalizePose U = None) \<and>
   (normalizePose R = None \<longleftrightarrow> length R < 33 \<or> torso_length R < 0.001) \<and>
   (normalizePose U = None \<longleftrightarrow> length U < 33 \<or> torso_length U < 0.001) \<and>
   (\<forall>c. comparePoses now R U = Some c \<and> (\<forall>e \<in> set (segments c). snd e = None)
        \<longrightarrow> overall c = 0)"
proof -
  have a: "comparePoses now R U = None \<longleftrightarrow> normalizePose R = None \<or> normalizePose U = None"
    by (simp add: comparePoses_def Let_def split: option.splits prod.splits)
  have d: "overall c = 0"
    if "comparePoses now R U = Some c" and n: "\<forall>e \<in> set (segments c). snd e = None" for c
  proof -
    from that(1) a obtain rn un where rn: "normalizePose R = Some rn"
      and un: "normalizePose U = Some un"
      by (cases "normalizePose R"; cases "normalizePose U") auto
    let ?ss = "map (\<lambda>name. (name, segment_score rn un (BODY_SEGMENTS name))) segment_keys"
    obtain ws wt where w: "weight_loop ?ss (0, 0) = (ws, wt)"
      by (cases "weight_loop ?ss (0, 0)")
    from that(1) have
      c: "c = \<lparr> overall = (if wt > 0 then real_of_int (js_round ((ws / wt) * 10)) / 10 else 0),
                  segments = ?ss, timestamp = now \<rparr>"
      by (simp add: comparePoses_def rn un Let_def w)
    have s: "segments c = ?ss" using c by simp
    have "weight_loop ?ss (0, 0) = (0, 0)"
      using weight_loop_none[of ?ss "(0, 0)"] n s by simp
    then have "wt = 0" using w by simp
    then show ?thesis using c by simp
  qed
  show ?thesis using a d normalizePose_None_iff by blast
qed

lemma cmp_hidden:
  "comparePoses 0 hiddenPose hiddenPose =
     Some \<lparr> overall = 0,
            segments = [(leftArm, None), (rightArm, None), (leftLeg, None),
                        (rightLeg, None), (torso, None), (head, None)],
            timestamp = 0 \<rparr>"
  by (simp add: comparePoses_def normalizePose_def hiddenPose_def standingPose_def pt_def
      midpoint_def distance_def z_or0_def vis_or0_def Let_def segment_keys_def
      segment_score_def)

theorem comparePoses_absent_iff_witness:
  "comparePoses 0 [] standingPose = None \<and>
   comparePoses 0 hiddenPose hiddenPose \<noteq> None \<and>
   list_all (\<lambda>e. snd e = None) (segments (the (comparePoses 0 hiddenPose hiddenPose))) \<and>
   overall (the (comparePoses 0 hiddenPose hiddenPose)) = 0"
proof -
  have n: "normalizePose [] = None" by (simp add: normalizePose_def)
  have l: "list_all (\<lambda>e. snd e = None) (segments (the (comparePoses 0 hiddenPose hiddenPose)))"
    by (simp add: cmp_hidden)
  show ?thesis
    using comparePoses_absent_iff[of 0 "[]" standingPose]
      comparePoses_absent_iff[of 0 hiddenPose hiddenPose] n l cmp_hidden
    by (simp add: list_all_iff)
qed

section \<open>Invariance of the comparison under translation and scaling\<close>

lemma comparePoses_None:
  "comparePoses now R U = None \<longleftrightarrow> normalizePose R = None \<or> normalizePose U = None"
  by (simp add: comparePoses_def Let_def split: option.splits prod.splits)

lemma sum_sq_mult:
  fixes a b c s :: real
  shows "(s * a)\<^sup>2 + (s * b)\<^sup>2 + (s * c)\<^sup>2 = s\<^sup>2 * (a\<^sup>2 + b\<^sup>2 + c\<^sup>2)"
  by (simp add: power_mult_distrib distrib_left)

lemma midpoint_transform:
  "lm_x (midpoint (transform_lm s tx ty tz a) (transform_lm s tx ty tz b)) = s * lm_x (midpoint a b) + tx"
  "lm_y (midpoint (transform_lm s tx ty tz a) (transform_lm s tx ty tz b)) = s * lm_y (midpoint a b) + ty"
  "z_or0 (midpoint (transform_lm s tx ty tz a) (transform_lm s tx ty tz b)) = s * z_or0 (midpoint a b) + tz"
  by (simp_all add: midpoint_def transform_lm_def z_or0_def field_simps)

lemma torso_length_transform:
  assumes "0 < s" "33 \<le> length P"
  shows "torso_length (transform_pose s tx ty tz P) = s * torso_length P"
proof -
  let ?T = "transform_lm s tx ty tz"
  let ?sh = "midpoint (P ! 11) (P ! 12)" and ?hp = "midpoint (P ! 23) (P ! 24)"
  have nth: "\<And>i. i < 33 \<Longrightarrow> transform_pose s tx ty tz P ! i = ?T (P ! i)"
    using assms(2) by (simp add: transform_pose_def)
  have "torso_length (transform_pose s tx ty tz P) =
     sqrt ((lm_x (midpoint (?T (P ! 11)) (?T (P ! 12))) - lm_x (midpoint (?T (P ! 23)) (?T (P ! 24))))\<^sup>2
         + (lm_y (midpoint (?T (P ! 11)) (?T (P ! 12))) - lm_y (midpoint (?T (P ! 23)) (?T (P ! 24))))\<^sup>2
         + (z_or0 (midpoint (?T (P ! 11)) (?T (P ! 12))) - z_or0 (midpoint (?T (P ! 23)) (?T (P ! 24))))\<^sup>2)"
    by (simp add: torso_length_def distance_def nth)
  also have "\<dots> = sqrt ((s * (lm_x ?sh - lm_x ?hp))\<^sup>2 + (s * (lm_y ?sh - lm_y ?hp))\<^sup>2
         + (s * (z_or0 ?sh - z_or0 ?hp))\<^sup>2)"
    by (simp only: midpoint_transform add_diff_add right_diff_distrib diff_self add_0_right)
  also have "\<dots> = sqrt (s\<^sup>2 * ((lm_x ?sh - lm_x ?hp)\<^sup>2 + (lm_y ?sh - lm_y ?hp)\<^sup>2
         + (z_or0 ?sh - z_or0 ?hp)\<^sup>2))"
    by (simp only: sum_sq_mult)
  also have "\<dots> = s * torso_length P"
    using assms(1) by (simp add: real_sqrt_mult torso_length_def distance_def)
  finally show ?thesis .
qed

lemma norm_lm_transform:
  assumes "0 < s" "0 < L"
    and "lm_x m' = s * lm_x m + tx" "lm_y m' = s * lm_y m + ty" "z_or0 m' = s * z_or0 m + tz"
  shows "norm_lm m' (s * L) (transform_lm s tx ty tz lm) = norm_lm m L lm"
proof -
  have "(s * a + t - (s * b + t)) / (s * L) = (a - b) / L" for a b t :: real
  proof -
    have "s * a + t - (s * b + t) = s * (a - b)" by (simp add: right_diff_distrib)
    then show ?thesis using assms(1) by simp
  qed
  then show ?thesis
    using assms(3-5) by (simp add: norm_lm_def transform_lm_def z_or0_def vis_or0_def)
qed

lemma normalizePose_transform:
  assumes "0 < s" "normalizePose P = Some N" "0.001 \<le> s * torso_length P"
  shows "normalizePose (transform_pose s tx ty tz P) = Some N"
proof -
  let ?T = "transform_lm s tx ty tz"
  let ?P' = "transform_pose s tx ty tz P"
  from assms(2) have len: "33 \<le> length P" and L: "0.001 \<le> torso_length P"
    and N: "N = map (norm_lm (midpoint (P ! 23) (P ! 24)) (torso_length P)) P"
    by (simp_all add: normalizePose_Some_iff)
  have Lpos: "0 < torso_length P" using L by simp
  have tl: "torso_length ?P' = s * torso_length P"
    by (rule torso_length_transform[OF assms(1) len])
  have nth: "\<And>i. i < 33 \<Longrightarrow> ?P' ! i = ?T (P ! i)"
    using len by (simp add: transform_pose_def)
  have key: "norm_lm (midpoint (?P' ! 23) (?P' ! 24)) (torso_length ?P') (?T lm) =
        norm_lm (midpoint (P ! 23) (P ! 24)) (torso_length P) lm" for lm
    unfolding tl
    by (rule norm_lm_transform[OF assms(1) Lpos]) (simp_all add: nth midpoint_transform)
  have "map (norm_lm (midpoint (?P' ! 23) (?P' ! 24)) (torso_length ?P')) ?P' =
        map (\<lambda>lm. norm_lm (midpoint (?P' ! 23) (?P' ! 24)) (torso_length ?P') (?T lm)) P"
    by (simp add: transform_pose_def)
  also have "\<dots> = N" by (simp only: key N)
  finally have "map (norm_lm (midpoint (?P' ! 23) (?P' ! 24)) (torso_length ?P')) ?P' = N" .
  moreover have "33 \<le> length ?P'" using len by (simp add: transform_pose_def)
  ultimately show ?thesis
    using assms(3) tl by (simp add: normalizePose_Some_iff)
qed

text \<open>
  In exact arithmetic the transformed poses have the same normalized poses, so the
  comparison gives the same scores.
\<close>

lemma comparePoses_transform_exact:
  assumes "0 < s"
    and "comparePoses now R U = Some c"
    and "0.001 \<le> s * torso_length R" and "0.001 \<le> s * torso_length U"
  shows "\<exists>c'. comparePoses now' (transform_pose s tx ty tz R) (transform_pose s tx ty tz U) = Some c'
           \<and> overall c' = overall c \<and> segments c' = segments c"
proof -
  from assms(2) obtain rn un where rn: "normalizePose R = Some rn"
    and un: "normalizePose U = Some un"
    by (cases "normalizePose R"; cases "normalizePose U") (auto simp: comparePoses_def)
  have rn': "normalizePose (transform_pose s tx ty tz R) = Some rn"
    by (rule normalizePose_transform[OF assms(1) rn assms(3)])
  have un': "normalizePose (transform_pose s tx ty tz U) = Some un"
    by (rule normalizePose_transform[OF assms(1) un assms(4)])
  let ?ss = "map (\<lambda>name. (name, segment_score rn un (BODY_SEGMENTS name))) segment_keys"
  obtain ws wt where w: "weight_loop ?ss (0, 0) = (ws, wt)"
    by (cases "weight_loop ?ss (0, 0)")
  show ?thesis
    using assms(2) by (auto simp: comparePoses_def rn un rn' un' Let_def w)
qed

text \<open>
  Claim C4 (as amended).  For every pair of poses of ordinary magnitude on which
  \<open>comparePoses\<close> succeeds and whose bones are clear of the guard of \<open>cosineSim\<close>, every
  positive scale factor \<open>s\<close> under which the scaled torso length of both poses is still
  at least 0.0011 (clear of the guard at 0.001 of \<open>normalizePose\<close>), and every
  translation of moderate size: comparing the transformed poses succeeds, every
  segment has a score exactly when it had one before, the segment scores agree up to
  rounding error (within 0.001) and the overall scores, which are rounded to one
  decimal place, differ by at most one step of 0.1.
\<close>

theorem comparePoses_similarity_invariant:
  assumes "0 < s"
    and "comparePoses now R U = Some c"
    and "0.0011 \<le> s * torso_length R" and "0.0011 \<le> s * torso_length U"
    and "ordinary_pose R" and "ordinary_pose U"
    and "clear_bones R" and "clear_bones U"
    and "moderate_shift s tx ty tz R" and "moderate_shift s tx ty tz U"
  shows "\<exists>c'. comparePoses now' (transform_pose s tx ty tz R) (transform_pose s tx ty tz U) = Some c'
           \<and> \<bar>overall c' - overall c\<bar> \<le> 1 / 10 + 1 / 10 ^ 9
           \<and> scores_close (1 / 1000) (segments c) (segments c')"
proof -
  have le: "(0.001::real) \<le> 0.0011" by simp
  have g: "0.001 \<le> s * torso_length R" "0.001 \<le> s * torso_length U"
    by (rule order_trans[OF le assms(3)], rule order_trans[OF le assms(4)])
  from comparePoses_transform_exact[OF assms(1,2) g, of now' tx ty tz]
  obtain c' where c': "comparePoses now' (transform_pose s tx ty tz R) (transform_pose s tx ty tz U) = Some c'"
    "overall c' = overall c" "segments c' = segments c"
    by blast
  have "scores_close (1 / 1000) (segments c) (segments c')"
    using c'(3) by (simp add: scores_close_refl)
  then show ?thesis using c' by simp
qed

text \<open>
  The claim as first stated, for every positive scale factor, fails: the guard of
  \<open>normalizePose\<close> compares the torso length of the pose as given with 0.001, so
  scaling the standing figure (torso length 1) by 1/10000 makes the comparison fail.
\<close>

theorem comparePoses_similarity_invariant_counterexample:
  "comparePoses 0 standingPose standingPose \<noteq> None \<and>
   comparePoses 0 (transform_pose (1 / 10000) 0 0 0 standingPose)
                  (transform_pose (1 / 10000) 0 0 0 standingPose) = None"
proof -
  have l: "33 \<le> length standingPose" by (simp add: standingPose_def)
  have t: "torso_length standingPose = 1"
    by (simp add: torso_length_def standingPose_def pt_def midpoint_def distance_def z_or0_def)
  have "torso_length (transform_pose (1 / 10000) 0 0 0 standingPose) = 1 / 10000"
    using torso_length_transform[of "1 / 10000" standingPose 0 0 0] l t by simp
  then have "normalizePose (transform_pose (1 / 10000) 0 0 0 standingPose) = None"
    by (simp add: normalizePose_None_iff)
  moreover have "normalizePose standingPose \<noteq> None"
    using l t by (simp add: normalizePose_None_iff)
  ultimately show ?thesis
    by (simp add: comparePoses_None)
qed

lemma torso_standing: "torso_length standingPose = 1"
  by (simp add: torso_length_def standingPose_def pt_def midpoint_def distance_def z_or0_def)

lemma torso_bent: "torso_length bentPose = 1"
  by (simp add: torso_length_def bentPose_def pt_def midpoint_def distance_def z_or0_def)

lemma ordinary_standing: "ordinary_pose standingPose"
  unfolding ordinary_pose_def torso_standing
  by (simp add: standingPose_def pt_def z_or0_def)

lemma ordinary_bent: "ordinary_pose bentPose"
  unfolding ordinary_pose_def torso_bent
  by (simp add: bentPose_def pt_def z_or0_def)

lemma clear_standing: "clear_bones standingPose"
  by (simp add: clear_bones_def normalizePose_def standingPose_def pt_def midpoint_def
      distance_def z_or0_def vis_or0_def Let_def all_bones_def segment_keys_def
      bone_length_def magnitude_def vecBetween_def)

lemma clear_bent: "clear_bones bentPose"
  by (simp add: clear_bones_def normalizePose_def bentPose_def pt_def midpoint_def
      distance_def z_or0_def vis_or0_def Let_def all_bones_def segment_keys_def
      bone_length_def magnitude_def vecBetween_def)

theorem comparePoses_similarity_invariant_witness:
  "(0::real) < 2 \<and> 0.0011 \<le> 2 * torso_length standingPose \<and>
   0.0011 \<le> 2 * torso_length bentPose \<and>
   ordinary_pose standingPose \<and> ordinary_pose bentPose \<and>
   clear_bones standingPose \<and> clear_bones bentPose \<and>
   moderate_shift 2 3 5 1 standingPose \<and> moderate_shift 2 3 5 1 bentPose \<and>
   comparePoses 0 standingPose bentPose =
     Some \<lparr> overall = 95,
            segments = [(leftArm, Some 75), (rightArm, Some 100), (leftLeg, Some 100),
                        (rightLeg, Some 100), (torso, Some 100), (head, Some 100)],
            timestamp = 0 \<rparr> \<and>
   comparePoses 5 (transform_pose 2 3 5 1 standingPose) (transform_pose 2 3 5 1 bentPose) \<noteq> None \<and>
   \<bar>overall (the (comparePoses 5 (transform_pose 2 3 5 1 standingPose)
                                (transform_pose 2 3 5 1 bentPose))) - 95\<bar> \<le> 1 / 10 + 1 / 10 ^ 9"
proof -
  have c: "comparePoses 0 standingPose bentPose =
     Some \<lparr> overall = 95,
            segments = [(leftArm, Some 75), (rightArm, Some 100), (leftLeg, Some 100),
                        (rightLeg, Some 100), (torso, Some 100), (head, Some 100)],
            timestamp = 0 \<rparr>"
    by (simp add: comparePoses_def normalizePose_def bentPose_def standingPose_def pt_def
      midpoint_def distance_def z_or0_def vis_or0_def Let_def segment_keys_def
      segment_score_def vecBetween_def cosineSim_def js_round_def)
  have m: "moderate_shift 2 3 5 1 standingPose" "moderate_shift 2 3 5 1 bentPose"
    by (simp_all add: moderate_shift_def torso_standing torso_bent)
  have g: "(0::real) < 2" "0.0011 \<le> 2 * torso_length standingPose"
    "0.0011 \<le> 2 * torso_length bentPose"
    by (simp_all add: torso_standing torso_bent)
  from comparePoses_similarity_invariant[OF g(1) c g(2,3) ordinary_standing ordinary_bent
      clear_standing clear_bent m, of 5]
  obtain c' where "comparePoses 5 (transform_pose 2 3 5 1 standingPose)
      (transform_pose 2 3 5 1 bentPose) = Some c'"
    "\<bar>overall c' - 95\<bar> \<le> 1 / 10 + 1 / 10 ^ 9"
    by auto
  then show ?thesis
    using c m g ordinary_standing ordinary_bent clear_standing clear_bent by simp
qed


section \<open>Properties of the voice-cue throttle\<close>

lemma cue_silent:
  "generateVoiceCue st now cmp r u cue = (st', None) \<Longrightarrow> st' = st"
  by (auto simp: generateVoiceCue_def Let_def truthy_def
      split: option.splits if_splits prod.splits)

lemma cue_spoken:
  "generateVoiceCue st now cmp r u cue = (st', Some m) \<Longrightarrow>
   lastSpeakTime st + 4000 \<le> now \<and> lastSpeakTime st' = now"
  by (auto simp: generateVoiceCue_def Let_def COOLDOWN_MS_def
      split: option.splits if_splits prod.splits)

lemma cue_spoken_held:
  assumes "generateVoiceCue st now (Some cmp) r u cue = (st', Some m)"
    and "fst (worst_loop (segments cmp) (None, 100)) = Some S"
    and "snd (worst_loop (segments cmp) (None, 100)) < 55"
  shows "lastSpokenSegment st' = Some S"
    and "lastSpokenSegment st = Some S \<Longrightarrow> lastSpeakTime st + 8000 \<le> now"
  using assms
  by (auto simp: generateVoiceCue_def Let_def COOLDOWN_MS_def SCORE_THRESHOLD_SPEAK_def
      split: option.splits if_splits prod.splits)

lemma run_coach_after:
  "\<forall>e \<in> set (run_coach st cs). lastSpeakTime st + 4000 \<le> fst e"
proof (induction cs arbitrary: st)
  case Nil
  then show ?case by simp
next
  case (Cons c cs)
  obtain st' out where g: "generateVoiceCue st (call_now c) (call_comparison c) (call_ref c)
      (call_user c) (call_cue c) = (st', out)"
    by (cases "generateVoiceCue st (call_now c) (call_comparison c) (call_ref c)
      (call_user c) (call_cue c)")
  show ?case
  proof (cases out)
    case None
    then have "st' = st" using g cue_silent by blast
    then show ?thesis using g None Cons.IH[of st] by simp
  next
    case (Some m)
    then have t: "lastSpeakTime st + 4000 \<le> call_now c" "lastSpeakTime st' = call_now c"
      using g cue_spoken by blast+
    then show ?thesis using g Some Cons.IH[of st'] by fastforce
  qed
qed

lemma run_coach_gap4:
  "sorted_wrt (\<lambda>a b. fst a + 4000 \<le> fst b) (run_coach st cs)"
proof (induction cs arbitrary: st)
  case Nil
  then show ?case by simp
next
  case (Cons c cs)
  obtain st' out where g: "generateVoiceCue st (call_now c) (call_comparison c) (call_ref c)
      (call_user c) (call_cue c) = (st', out)"
    by (cases "generateVoiceCue st (call_now c) (call_comparison c) (call_ref c)
      (call_user c) (call_cue c)")
  show ?case
  proof (cases out)
    case None
    then show ?thesis using g Cons.IH[of st'] by simp
  next
    case (Some m)
    then have "lastSpeakTime st' = call_now c" using g cue_spoken by blast
    then show ?thesis using g Some Cons.IH[of st'] run_coach_after[of st' cs] by simp
  qed
qed

lemma cue_spoken_call:
  assumes "worst_held S c"
    and "generateVoiceCue st (call_now c) (call_comparison c) (call_ref c) (call_user c)
           (call_cue c) = (st', Some m)"
  shows "lastSpokenSegment st' = Some S"
    and "lastSpokenSegment st = Some S \<Longrightarrow> lastSpeakTime st + 8000 \<le> call_now c"
proof -
  from assms(2) obtain cmp where cmp: "call_comparison c = Some cmp"
    by (cases "call_comparison c") (auto simp: generateVoiceCue_def)
  from assms(1) cmp have w: "fst (worst_loop (segments cmp) (None, 100)) = Some S"
    "snd (worst_loop (segments cmp) (None, 100)) < 55"
    by (simp_all add: worst_held_def)
  from assms(2) cmp have g: "generateVoiceCue st (call_now c) (Some cmp) (call_ref c)
      (call_user c) (call_cue c) = (st', Some m)"
    by simp
  show "lastSpokenSegment st' = Some S"
    by (rule cue_spoken_held(1)[OF g w])
  show "lastSpokenSegment st = Some S \<Longrightarrow> lastSpeakTime st + 8000 \<le> call_now c"
    by (rule cue_spoken_held(2)[OF g w])
qed

lemma run_coach_held_after:
  assumes "\<forall>c \<in> set cs. worst_held S c" "lastSpokenSegment st = Some S"
  shows "(\<forall>e \<in> set (run_coach st cs). lastSpeakTime st + 8000 \<le> fst e) \<and>
         sorted_wrt (\<lambda>a b. fst a + 8000 \<le> fst b) (run_coach st cs)"
  using assms
proof (induction cs arbitrary: st)
  case Nil
  then show ?case by simp
next
  case (Cons c cs)
  obtain st' out where g: "generateVoiceCue st (call_now c) (call_comparison c) (call_ref c)
      (call_user c) (call_cue c) = (st', out)"
    by (cases "generateVoiceCue st (call_now c) (call_comparison c) (call_ref c)
      (call_user c) (call_cue c)")
  have rest: "\<forall>c \<in> set cs. worst_held S c" and held: "worst_held S c"
    using Cons.prems(1) by simp_all
  show ?case
  proof (cases out)
    case None
    then have "st' = st" using g cue_silent by blast
    then show ?thesis using g None Cons.IH[OF rest Cons.prems(2)] by simp
  next
    case (Some m)
    have s': "lastSpokenSegment st' = Some S" and t': "lastSpeakTime st' = call_now c"
      and t: "lastSpeakTime st + 8000 \<le> call_now c"
      using cue_spoken_call[OF held g[unfolded Some]] cue_spoken[OF g[unfolded Some]]
        Cons.prems(2)
      by simp_all
    show ?thesis using g Some Cons.IH[OF rest s'] t t' by fastforce
  qed
qed

lemma run_coach_gap8:
  assumes "\<forall>c \<in> set cs. worst_held S c"
  shows "sorted_wrt (\<lambda>a b. fst a + 8000 \<le> fst b) (run_coach st cs)"
  using assms
proof (induction cs arbitrary: st)
  case Nil
  then show ?case by simp
next
  case (Cons c cs)
  obtain st' out where g: "generateVoiceCue st (call_now c) (call_comparison c) (call_ref c)
      (call_user c) (call_cue c) = (st', out)"
    by (cases "generateVoiceCue st (call_now c) (call_comparison c) (call_ref c)
      (call_user c) (call_cue c)")
  have rest: "\<forall>c \<in> set cs. worst_held S c" and held: "worst_held S c"
    using Cons.prems(1) by simp_all
  show ?case
  proof (cases out)
    case None
    then show ?thesis using g Cons.IH[OF rest, of st'] by simp
  next
    case (Some m)
    have s': "lastSpokenSegment st' = Some S" and t': "lastSpeakTime st' = call_now c"
      using cue_spoken_call(1)[OF held g[unfolded Some]] cue_spoken[OF g[unfolded Some]]
      by simp_all
    show ?thesis using g Some run_coach_held_after[OF rest s'] t' by simp
  qed
qed

text \<open>
  Claim C5.  In every sequence of calls to \<open>generateVoiceCue\<close>, from any state and with
  any comparisons, poses and clock readings, any two utterances are at least 4000 ms
  apart; and when the worst segment of every comparison passed in is the same segment
  with a score below 55, any two utterances are at least 8000 ms apart.
\<close>

theorem voice_cue_throttle:
  "sorted_wrt (\<lambda>a b. fst a + 4000 \<le> fst b) (run_coach st cs) \<and>
   ((\<forall>c \<in> set cs. worst_held S c) \<longrightarrow>
      sorted_wrt (\<lambda>a b. fst a + 8000 \<le> fst b) (run_coach st cs))"
  using run_coach_gap4 run_coach_gap8 by blast

lemma worst_lowLeftArm: "worst_loop (segments lowLeftArm) (None, 100) = (Some leftArm, 40)"
  by (simp add: lowLeftArm_def)

lemma diff_standing_bent:
  "analyzeDifference standingPose bentPose leftArm = Some ''Adjust your left arm position''"
  by (simp add: analyzeDifference_def nth_opt_def standingPose_def bentPose_def pt_def
      vis_or0_def Let_def)

lemma tick_step:
  "generateVoiceCue st t (Some lowLeftArm) (Some standingPose) (Some bentPose) None =
     (if \<not> enabled st \<or> t - lastSpeakTime st < 4000
         \<or> (lastSpokenSegment st = Some leftArm \<and> t - lastSpeakTime st < 8000)
      then (st, None)
      else (st\<lparr> lastSpeakTime := t, lastSpokenSegment := Some leftArm \<rparr>,
            Some ''Adjust your left arm position''))"
  by (auto simp: generateVoiceCue_def worst_lowLeftArm diff_standing_bent truthy_def
      COOLDOWN_MS_def SCORE_THRESHOLD_SPEAK_def Let_def)

lemma run_demo:
  "run_coach initialCoach demoCalls =
     [(5000, ''Adjust your left arm position''), (13000, ''Adjust your left arm position''),
      (21000, ''Adjust your left arm position'')]"
  by (simp add: demoCalls_def tick_def tick_step initialCoach_def)

theorem voice_cue_throttle_witness:
  "list_all (worst_held leftArm) demoCalls \<and>
   run_coach initialCoach demoCalls =
     [(5000, ''Adjust your left arm position''), (13000, ''Adjust your left arm position''),
      (21000, ''Adjust your left arm position'')] \<and>
   sorted_wrt (\<lambda>a b. fst a + 8000 \<le> fst b) (run_coach initialCoach demoCalls)"
proof -
  have h: "list_all (worst_held leftArm) demoCalls"
    by (simp add: demoCalls_def tick_def worst_held_def worst_lowLeftArm)
  then have "\<forall>c \<in> set demoCalls. worst_held leftArm c" by (simp add: list_all_iff)
  then show ?thesis
    using voice_cue_throttle[of initialCoach demoCalls leftArm] h run_demo by blast
qed

section \<open>The directional cue and the visibility of its landmarks\<close>


lemma analyzeDifference_cue_iff:
  "analyzeDifference R U k \<noteq> None \<longleftrightarrow>
     fst (primary (SEGMENT_TO_JOINTS k)) < length R \<and>
     fst (primary (SEGMENT_TO_JOINTS k)) < length U \<and>
     snd (primary (SEGMENT_TO_JOINTS k)) < length R \<and>
     snd (primary (SEGMENT_TO_JOINTS k)) < length U \<and>
     0.4 \<le> vis_or0 (R ! fst (primary (SEGMENT_TO_JOINTS k))) \<and>
     0.4 \<le> vis_or0 (U ! fst (primary (SEGMENT_TO_JOINTS k)))"
  by (auto simp: analyzeDifference_def nth_opt_def Let_def)



section \<open>Posecode rules and the visibility of the landmarks they read\<close>

lemmas lm_index_defs = NOSE_def LEFT_SHOULDER_def RIGHT_SHOULDER_def LEFT_ELBOW_def
  RIGHT_ELBOW_def LEFT_WRIST_def RIGHT_WRIST_def LEFT_HIP_def RIGHT_HIP_def LEFT_KNEE_def
  RIGHT_KNEE_def LEFT_ANKLE_def RIGHT_ANKLE_def

text \<open>
  What the gates of the two limb loops do ensure: a code of an arm is emitted only
  when the shoulder, elbow and wrist of that arm are visible, a code of a leg only
  when its hip, knee and ankle are.
\<close>

lemma arm_posecodes_gate:
  "arm_posecodes lm side \<noteq> [] \<Longrightarrow>
   vis lm (if side = left then [LEFT_SHOULDER, LEFT_ELBOW, LEFT_WRIST]
           else [RIGHT_SHOULDER, RIGHT_ELBOW, RIGHT_WRIST])"
  by (cases side) (auto simp: arm_posecodes_def Let_def split: if_splits)

lemma leg_posecodes_gate:
  "leg_posecodes lm side \<noteq> [] \<Longrightarrow>
   vis lm (if side = left then [LEFT_HIP, LEFT_KNEE, LEFT_ANKLE]
           else [RIGHT_HIP, RIGHT_KNEE, RIGHT_ANKLE])"
  by (cases side) (auto simp: leg_posecodes_def Let_def split: if_splits)

text \<open>
  Claim C7 says that each rule fires only when every landmark it reads has visibility
  at least 0.4, the hip for \<open>arm_dropped\<close> included.  The arm rules are gated on
  shoulder, elbow and wrist only: on the standing figure with the left hip at
  visibility 0.1 the rule \<open>arm_dropped\<close> of the left arm, which compares the wrist with
  that hip, still fires (while the left leg and the torso, gated on the hip, emit
  nothing).
\<close>

theorem extractPosecodes_hidden_hip:
  "vis_or0 (hipHiddenPose ! LEFT_HIP) = 0.1 \<and>
   extractPosecodes hipHiddenPose =
     Some [pc leftArm ''arm_straight'', pc leftArm ''arm_dropped'',
           pc leftArm ''arm_extended_sideways'', pc leftArm ''arm_crossed'',
           pc rightArm ''arm_straight'', pc rightArm ''arm_dropped'',
           pc rightArm ''arm_extended_sideways'', pc rightArm ''arm_crossed'',
           pc rightLeg ''leg_straight'', pc rightLeg ''leg_raised'', pc rightLeg ''leg_spread'']"
  by (simp add: extractPosecodes_def arm_posecodes_def leg_posecodes_def torso_posecodes_def
      head_posecodes_def midY_def lm_index_defs vis_def nth_opt_def hipHiddenPose_def
      standingPose_def pt_def vis_or0_def angle3_def Let_def)

section \<open>Properties of the timeline\<close>






















section \<open>Properties of the worst-moment search\<close>

lemma pick_step:
  assumes inv: "pick_inv vd w results used" and c: "cand_ok vd w c" and w: "0 < w"
    and free: "\<not> list_ex (\<lambda>i. i \<in> used) [index c ..< index c + w]"
  shows "pick_inv vd w (results @ [make_moment w c])
           (used \<union> set [index c - guard_zone w ..< min (length vd) (index c + w + guard_zone w)])"
proof -
  let ?n = "length vd" and ?g = "guard_zone w" and ?i = "index c"
  let ?m = "make_moment w c"
  let ?U = "used \<union> set [?i - ?g ..< min ?n (?i + w + ?g)]"
  have fin: "finite used" using inv by (auto simp: pick_inv_def intro: finite_subset)
  have fr: "\<And>j. ?i \<le> j \<Longrightarrow> j < ?i + w \<Longrightarrow> j \<notin> used"
    using free by (auto simp: list_ex_iff)
  have iw: "?i + w \<le> ?n" using c by (simp add: cand_ok_def)
  have cut: "cut_at vd w ?m ?i"
    using c by (simp add: cut_at_def cand_ok_def make_moment_def)
  have sub: "?U \<subseteq> {..< ?n}" using inv by (auto simp: pick_inv_def)
  have win: "{?i ..< ?i + w} \<subseteq> ?U" using iw by auto
  have "card (used \<union> {?i ..< ?i + w}) = card used + w"
    using fin fr by (subst card_Un_disjoint) auto
  moreover have "card (used \<union> {?i ..< ?i + w}) \<le> card ?U"
    using win fin by (intro card_mono) auto
  ultimately have cardU: "(length results + 1) * w \<le> card ?U"
    using inv by (simp add: pick_inv_def)
  have old: "apart w a ?m \<and> apart w ?m a \<and> centerIndex a \<noteq> centerIndex ?m"
    if a: "a \<in> set results" for a
  proof -
    from inv a obtain i0 where i0: "cut_at vd w a i0"
      and z: "\<And>j. i0 - ?g \<le> j \<Longrightarrow> j < i0 + w + ?g \<Longrightarrow> j < ?n \<Longrightarrow> j \<in> used"
      unfolding pick_inv_def by blast
    have c0: "centerIndex a = i0 + w div 2" using i0 by (simp add: cut_at_def)
    have cm: "centerIndex ?m = ?i + w div 2" by (simp add: make_moment_def)
    have l1: "?i < ?n" "?i \<le> ?i" "?i < ?i + w" using iw w by arith+
    have l2: "?i + w - 1 < ?n" "?i \<le> ?i + w - 1" "?i + w - 1 < ?i + w" using iw w by arith+
    have n1: "\<not> (i0 - ?g \<le> ?i \<and> ?i < i0 + w + ?g)"
      using z[of ?i] fr[OF l1(2,3)] l1(1) by blast
    have n2: "\<not> (i0 - ?g \<le> ?i + w - 1 \<and> ?i + w - 1 < i0 + w + ?g)"
      using z[of "?i + w - 1"] fr[OF l2(2,3)] l2(1) by blast
    have "i0 + w + ?g \<le> ?i \<or> ?i + w + ?g \<le> i0"
      using n1 n2 w by arith
    then show ?thesis using w by (auto simp: apart_def c0 cm)
  qed
  have "centerIndex ?m \<notin> centerIndex ` set results"
    using old by (metis imageE)
  then have dist: "distinct (map centerIndex (results @ [?m]))"
    using inv by (simp add: pick_inv_def)
  have zone: "\<forall>m \<in> set (results @ [?m]). \<exists>i. cut_at vd w m i \<and>
         (\<forall>j. i - ?g \<le> j \<and> j < i + w + ?g \<and> j < ?n \<longrightarrow> j \<in> ?U)"
  proof
    fix m assume "m \<in> set (results @ [?m])"
    then consider "m \<in> set results" | "m = ?m" by auto
    then show "\<exists>i. cut_at vd w m i \<and>
         (\<forall>j. i - ?g \<le> j \<and> j < i + w + ?g \<and> j < ?n \<longrightarrow> j \<in> ?U)"
    proof cases
      case 1
      then show ?thesis using inv unfolding pick_inv_def by blast
    next
      case 2
      have "\<forall>j. ?i - ?g \<le> j \<and> j < ?i + w + ?g \<and> j < ?n \<longrightarrow> j \<in> ?U" by auto
      then show ?thesis using cut 2 by blast
    qed
  qed
  have pair: "\<forall>a \<in> set (results @ [?m]). \<forall>b \<in> set (results @ [?m]).
      centerIndex a \<noteq> centerIndex b \<longrightarrow> apart w a b"
    using inv old unfolding pick_inv_def by auto
  show ?thesis
    unfolding pick_inv_def using sub cardU dist zone pair by simp
qed

lemma pick_loop_inv:
  assumes "\<forall>c \<in> set cs. cand_ok vd w c" "pick_inv vd w results used" "0 < w"
  shows "\<exists>used'. pick_inv vd w (pick_loop count w (guard_zone w) (length vd) cs (results, used)) used'"
  using assms
proof (induction cs arbitrary: results used)
  case Nil
  then show ?case by auto
next
  case (Cons c cs)
  have rest: "\<forall>c \<in> set cs. cand_ok vd w c" using Cons.prems(1) by simp
  have c: "cand_ok vd w c" using Cons.prems(1) by simp
  show ?case
  proof (cases "count \<le> length results")
    case True
    then show ?thesis using Cons.prems(2) by auto
  next
    case False
    show ?thesis
    proof (cases "list_ex (\<lambda>i. i \<in> used) [index c ..< index c + w]")
      case True
      then show ?thesis using False Cons.IH[OF rest Cons.prems(2) Cons.prems(3)] by simp
    next
      case free: False
      from Cons.IH[OF rest pick_step[OF Cons.prems(2) c Cons.prems(3) free] Cons.prems(3)]
      show ?thesis using False free by simp
    qed
  qed
qed

lemma pick_loop_length:
  "length (pick_loop count w g n cs (results, used)) \<le> max count (length results)"
proof (induction cs arbitrary: results used)
  case Nil
  then show ?case by simp
next
  case (Cons c cs)
  show ?case
    using Cons.IH[of results used]
      Cons.IH[of "results @ [make_moment w c]"
                 "used \<union> set [index c - g ..< min n (index c + w + g)]"]
    by auto
qed

lemma rolling_avgs_ok: "\<forall>c \<in> set (rolling_avgs vd w). cand_ok vd w c"
  by (auto simp: rolling_avgs_def cand_ok_def make_window_def Let_def)

lemma window_samples_pos: "window_samples ws vd = Some w \<Longrightarrow> 3 \<le> w"
  by (auto simp: window_samples_def Let_def split: if_splits)


lemma pick_inv_empty: "pick_inv vd w [] {}"
  by (simp add: pick_inv_def)

lemma findWorstMoments_cases:
  "findWorstMoments sd count ws = [] \<or>
   (5 \<le> length (filter valid_sample sd) \<and>
    (\<exists>w. window_samples ws (filter valid_sample sd) = Some w \<and>
       findWorstMoments sd count ws =
         sort_key startVideoTime
           (pick_loop count w (guard_zone w) (length (filter valid_sample sd))
              (sort_key win_avg (rolling_avgs (filter valid_sample sd) w)) ([], {}))))"
  by (auto simp: findWorstMoments_def Let_def split: option.splits)

lemma findWorstMoments_short:
  "length (filter valid_sample sd) < 5 \<Longrightarrow> findWorstMoments sd count ws = []"
  by (simp add: findWorstMoments_def Let_def)

lemma findWorstMoments_sorted: "sorted (map startVideoTime (findWorstMoments sd count ws))"
  using findWorstMoments_cases[of sd count ws] by (auto simp: sorted_sort_key)

text \<open>
  Claim C2.  With fewer than 5 samples that carry a playback time and both poses,
  \<open>findWorstMoments\<close> returns the empty list.  In every case the returned moments are
  ordered by non-decreasing start time and are at most \<open>count\<close>; when there are any,
  each is a window of \<open>w\<close> consecutive valid samples, any two of them are separated by
  the guard zone (so they do not overlap), and their number is at most the number
  \<open>floor(n / w)\<close> of windows of length \<open>w\<close> that fit side by side into the \<open>n\<close> valid
  samples.
\<close>

theorem findWorstMoments_windows:
  "(length (filter valid_sample sd) < 5 \<longrightarrow> findWorstMoments sd count ws = []) \<and>
   sorted (map startVideoTime (findWorstMoments sd count ws)) \<and>
   length (findWorstMoments sd count ws) \<le> count \<and>
   (findWorstMoments sd count ws \<noteq> [] \<longrightarrow>
      (\<exists>w. window_samples ws (filter valid_sample sd) = Some w \<and> 3 \<le> w \<and>
         length (findWorstMoments sd count ws)
           \<le> min count (length (filter valid_sample sd) div w) \<and>
         (\<forall>m \<in> set (findWorstMoments sd count ws).
            \<exists>i. cut_at (filter valid_sample sd) w m i) \<and>
         (\<forall>i j. i < j \<and> j < length (findWorstMoments sd count ws) \<longrightarrow>
            apart w (findWorstMoments sd count ws ! i) (findWorstMoments sd count ws ! j))))"
proof -
  let ?R = "findWorstMoments sd count ws"
  let ?vd = "filter valid_sample sd"
  have main: "\<exists>w. window_samples ws ?vd = Some w \<and> 3 \<le> w \<and>
         length ?R \<le> min count (length ?vd div w) \<and>
         (\<forall>m \<in> set ?R. \<exists>i. cut_at ?vd w m i) \<and>
         (\<forall>i j. i < j \<and> j < length ?R \<longrightarrow> apart w (?R ! i) (?R ! j))"
    if ne: "?R \<noteq> []"
  proof -
    from findWorstMoments_cases[of sd count ws] ne obtain w where
      w: "window_samples ws ?vd = Some w" and
      R: "?R = sort_key startVideoTime
           (pick_loop count w (guard_zone w) (length ?vd)
              (sort_key win_avg (rolling_avgs ?vd w)) ([], {}))"
      by blast
    let ?P = "pick_loop count w (guard_zone w) (length ?vd)
              (sort_key win_avg (rolling_avgs ?vd w)) ([], {})"
    have w3: "3 \<le> w" by (rule window_samples_pos[OF w])
    then have wpos: "0 < w" by simp
    have cands: "\<forall>c \<in> set (sort_key win_avg (rolling_avgs ?vd w)). cand_ok ?vd w c"
      using rolling_avgs_ok by simp
    from pick_loop_inv[OF cands pick_inv_empty wpos, of count]
    obtain used where inv: "pick_inv ?vd w ?P used" by blast
    have lenR: "length ?R = length ?P" and setR: "set ?R = set ?P" by (simp_all add: R)
    have "card used \<le> card {..< length ?vd}"
      using inv by (intro card_mono) (simp_all add: pick_inv_def)
    then have "length ?P * w \<le> length ?vd" using inv by (simp add: pick_inv_def)
    then have l1: "length ?P \<le> length ?vd div w"
      using wpos by (simp add: less_eq_div_iff_mult_less_eq)
    have l2: "length ?P \<le> count" using pick_loop_length[of count w _ _ _ "[]" "{}"] by simp
    have cut: "\<forall>m \<in> set ?R. \<exists>i. cut_at ?vd w m i"
      using inv setR unfolding pick_inv_def by blast
    have "distinct ?P \<and> inj_on centerIndex (set ?P)"
      using inv by (simp add: pick_inv_def distinct_map)
    then have dR: "distinct (map centerIndex ?R)"
      by (simp add: distinct_map R)
    have pw: "apart w (?R ! i) (?R ! j)" if "i < j" "j < length ?R" for i j
    proof -
      have ij: "i < length (map centerIndex ?R)" "j < length (map centerIndex ?R)" "i \<noteq> j"
        using that by simp_all
      have "map centerIndex ?R ! i \<noteq> map centerIndex ?R ! j"
        using nth_eq_iff_index_eq[OF dR ij(1,2)] ij(3) by blast
      then have "centerIndex (?R ! i) \<noteq> centerIndex (?R ! j)" using that by simp
      moreover have "?R ! i \<in> set ?P" "?R ! j \<in> set ?P"
        using that setR nth_mem[of i ?R] nth_mem[of j ?R] by simp_all
      ultimately show ?thesis using inv unfolding pick_inv_def by blast
    qed
    show ?thesis using w w3 l1 l2 lenR cut pw by auto
  qed
  have len: "length ?R \<le> count"
  proof (cases "?R = []")
    case True
    then show ?thesis by simp
  next
    case False
    from main[OF False] show ?thesis by auto
  qed
  show ?thesis
    using findWorstMoments_short[of sd count ws] findWorstMoments_sorted[of sd count ws] len main
    by blast
qed

lemma valid13: "filter valid_sample thirteenSamples =
     [sec 0 30, sec 1 30, sec 2 30, sec 3 90, sec 4 90,
      sec 5 90, sec 6 90, sec 7 90, sec 8 90, sec 9 20, sec 10 20, sec 11 20]"
  by (simp add: thirteenSamples_def valid_sample_def sec_def smp_def)

lemma ws12: "window_samples 3 validTwelve = Some 3"
  by (simp add: validTwelve_def window_samples_def sec_def smp_def js_round_def Let_def)

lemma ws13: "window_samples 3 (filter valid_sample thirteenSamples) = Some 3"
  using ws12 by (simp add: valid13 validTwelve_def)

lemma gz3: "guard_zone 3 = 5"
  by (simp add: guard_zone_def js_round_def)

lemma fwm13_unfold:
  "findWorstMoments thirteenSamples 3 3 =
     sort_key startVideoTime
       (pick_loop 3 3 5 12 (sort_key win_avg (rolling_avgs validTwelve 3)) ([], {}))"
proof -
  have l: "\<not> length thirteenSamples < 5" by (simp add: thirteenSamples_def)
  have v: "filter valid_sample thirteenSamples = validTwelve"
    by (simp add: valid13 validTwelve_def)
  have n: "length validTwelve = 12" by (simp add: validTwelve_def)
  have r: "rolling_avgs validTwelve 3 \<noteq> []"
    by (simp add: rolling_avgs_def n upt_rec)
  show ?thesis
    by (simp add: findWorstMoments_def l v n ws12 gz3 r Let_def)
qed

lemma picked13:
  "sort_key startVideoTime
       (pick_loop 3 3 5 12 (sort_key win_avg (rolling_avgs validTwelve 3)) ([], {})) =
   [make_moment 3 (make_window validTwelve 3 0), make_moment 3 (make_window validTwelve 3 9)]"
  by (simp add: rolling_avgs_def make_window_def slice_def upt_rec validTwelve_def sec_def smp_def
      video_time_def make_moment_def js_round_def)

lemma fwm13:
  "map centerIndex (findWorstMoments thirteenSamples 3 3) = [1, 10] \<and>
   map startVideoTime (findWorstMoments thirteenSamples 3 3) = [0, 9] \<and>
   map endVideoTime (findWorstMoments thirteenSamples 3 3) = [2, 11] \<and>
   map avgScore (findWorstMoments thirteenSamples 3 3) = [30, 20]"
  by (simp add: fwm13_unfold picked13)
    (simp add: make_window_def slice_def validTwelve_def sec_def smp_def
      video_time_def make_moment_def js_round_def)

theorem findWorstMoments_windows_witness:
  "length (filter valid_sample thirteenSamples) = 12 \<and>
   window_samples 3 (filter valid_sample thirteenSamples) = Some 3 \<and> guard_zone 3 = 5 \<and>
   map centerIndex (findWorstMoments thirteenSamples 3 3) = [1, 10] \<and>
   map startVideoTime (findWorstMoments thirteenSamples 3 3) = [0, 9] \<and>
   length (findWorstMoments thirteenSamples 3 3) \<le> min 3 (12 div 3) \<and>
   apart 3 (findWorstMoments thirteenSamples 3 3 ! 0) (findWorstMoments thirteenSamples 3 3 ! 1)"
proof -
  let ?R = "findWorstMoments thirteenSamples 3 3"
  have n: "length (filter valid_sample thirteenSamples) = 12" by (simp add: valid13)
  have "length (map centerIndex ?R) = 2" using fwm13 by simp
  then have l: "length ?R = 2" by simp
  then have ne: "?R \<noteq> []" by auto
  from findWorstMoments_windows[of thirteenSamples 3 3] ne ws13
  have "\<forall>i j. i < j \<and> j < length ?R \<longrightarrow> apart 3 (?R ! i) (?R ! j)" by auto
  then have "apart 3 (?R ! 0) (?R ! 1)" using l by simp
  then show ?thesis using n ws13 gz3 fwm13 l by simp
qed

end
